theory Spec2Isabelle
  imports Complex_Main
begin

section \<open>Dump-truck discrete-event simulation: the data model\<close>

text \<open>
  The program is \<^verbatim>\<open>src/simulation.js\<close>; \<^verbatim>\<open>src/unnamed/part_000\<close> is an earlier copy of the
  same engine with the three cumulative tables hard-coded and with an unguarded final
  update of the statistics. JavaScript numbers are values of \<^typ>\<open>real\<close> (times,
  probabilities, the busy-time integrals) and of \<^typ>\<open>int\<close> (counters and truck
  identifiers); NaN and the infinities are outside the model. The arithmetic of the
  engine, on clock times and counters, is exact. The sums of probabilities of
  \<^verbatim>\<open>createCumulativeTable\<close>, whose last digits decide the tolerance test, are rounded as
  IEEE 754 binary64 rounds them (\<open>roundDouble\<close> below). Texts are byte strings, the UTF-8
  encoding of the JavaScript string. Every exception of the source is a value of type
  \<open>error\<close>. \<^verbatim>\<open>Math.random()\<close> reads the next element of a stream of
  draws that the simulation carries (\<open>rng\<close>, \<open>draws\<close>). The textual log (\<^verbatim>\<open>logEvent\<close>) only
  formats values that are already in the state and is read by nothing; it is left out.
\<close>

datatype error =
    TypeError
  | RangeError
  | InvalidFormat string
  | InvalidNumbers string
  | ProbabilityOutOfRange string
  | InvalidDistribution string real

text \<open>An entry \<^verbatim>\<open>{ time, prob }\<close> of a parsed distribution and an entry
  \<^verbatim>\<open>{ time, cum_prob }\<close> of a cumulative table.\<close>

record dist_entry =
  d_time :: real
  prob :: real

record cum_entry =
  c_time :: real
  cum_prob :: real

datatype event_type = ALQ | EL | EW

record event =
  time :: real
  etype :: event_type
  truckId :: int

datatype truck_state = IDLE | LOADING | WEIGHING | TRAVELING | IN_LQ | IN_WQ

record truck =
  truck_id :: int
  tstate :: truck_state

record cum_probs =
  loading :: "cum_entry list"
  weighing :: "cum_entry list"
  travel :: "cum_entry list"

text \<open>The fields of a \<^verbatim>\<open>Simulation\<close> object; \<^verbatim>\<open>this.state.{LQ, L, WQ, W}\<close> and
  \<^verbatim>\<open>this.stats.{loaderBusyTime, scaleBusyTime}\<close> are flattened.\<close>

record sim =
  numTrucks :: int
  numLoaders :: int
  numScales :: int
  maxSimTime :: real
  cumProbs :: cum_probs
  clock :: real
  FEL :: "event list"
  LQ :: int
  L :: int
  WQ :: int
  W :: int
  loaderQueue :: "int list"
  weigherQueue :: "int list"
  trucks :: "truck list"
  loaderBusyTime :: real
  scaleBusyTime :: real
  rng :: "nat \<Rightarrow> real"
  draws :: nat

section \<open>Cumulative tables and sampling\<close>

text \<open>The arithmetic of \<^verbatim>\<open>createCumulativeTable\<close> is that of IEEE 754 binary64: the sum
  and the difference of two doubles are the exact results, rounded to the nearest double,
  a tie going to the double with the even significand.

  \<open>roundHalfEven q\<close> is the integer nearest to \<open>q\<close>, the even one of the two at a tie.\<close>

definition roundHalfEven :: "real \<Rightarrow> int" where
  "roundHalfEven q =
     (let n = \<lfloor>q\<rfloor>; r = q - of_int n in
      if r < 1 / 2 then n else if 1 / 2 < r then n + 1 else if even n then n else n + 1)"

text \<open>\<open>binade fuel a 1\<close> is the power of two \<open>p\<close> with \<open>p \<le> a < 2 * p\<close>, for a positive \<open>a\<close>;
  it does not go below \<open>1 / 2 ^ 1022\<close>, the least normal double, under which the doubles
  are spaced as they are just above it. The search starts at \<open>p = 1\<close> and halves or doubles
  \<open>p\<close>; 1100 steps reach every binade of the doubles.\<close>

fun binade :: "nat \<Rightarrow> real \<Rightarrow> real \<Rightarrow> real" where
  "binade fuel a p =
     (if fuel = 0 then p
      else if a < p then (if p \<le> 1 / 2 ^ 1022 then p else binade (fuel - 1) a (p / 2))
      else if 2 * p \<le> a then binade (fuel - 1) a (2 * p)
      else p)"

declare binade.simps [simp del]

text \<open>The double nearest to the real number \<open>x\<close>: the doubles of the binade of \<open>x\<close> are the
  multiples of \<open>ulp\<close>, \<open>2 ^ 52\<close> of them to the binade. A result of magnitude \<open>2 ^ 1024\<close> or
  more stands for an infinity; sums of probabilities are far from it.\<close>

definition roundDouble :: "real \<Rightarrow> real" where
  "roundDouble x =
     (if x = 0 then 0
      else let ulp = binade 1100 \<bar>x\<bar> 1 / 2 ^ 52 in
           sgn x * of_int (roundHalfEven (\<bar>x\<bar> / ulp)) * ulp)"

text \<open>\<^verbatim>\<open>x + y\<close> and \<^verbatim>\<open>x - y\<close> on doubles.\<close>

definition addDouble :: "real \<Rightarrow> real \<Rightarrow> real" where
  "addDouble x y = roundDouble (x + y)"

definition subDouble :: "real \<Rightarrow> real \<Rightarrow> real" where
  "subDouble x y = roundDouble (x - y)"

text \<open>\<^verbatim>\<open>dist.reduce((sum, item) => sum + item.prob, 0)\<close>\<close>

definition totalProb :: "dist_entry list \<Rightarrow> real" where
  "totalProb distr = foldl (\<lambda>sum item. addDouble sum (prob item)) 0 distr"

text \<open>The loop of \<^verbatim>\<open>createCumulativeTable\<close>: \<open>cum\<close> is the variable \<^verbatim>\<open>cum_prob\<close> before the
  current item.\<close>

fun cumLoop :: "real \<Rightarrow> dist_entry list \<Rightarrow> cum_entry list" where
  "cumLoop cum [] = []"
| "cumLoop cum (item # rest) =
     \<lparr>c_time = d_time item, cum_prob = addDouble cum (prob item)\<rparr>
       # cumLoop (addDouble cum (prob item)) rest"

text \<open>\<^verbatim>\<open>if (cumTable.length > 0) cumTable[cumTable.length - 1].cum_prob = 1.0\<close>\<close>

definition pinLast :: "cum_entry list \<Rightarrow> cum_entry list" where
  "pinLast cumTable =
     (if length cumTable > 0
      then cumTable[length cumTable - 1 := (cumTable ! (length cumTable - 1))\<lparr>cum_prob := 1\<rparr>]
      else cumTable)"

text \<open>\<^verbatim>\<open>createCumulativeTable(dist, name)\<close>. The test is
  \<^verbatim>\<open>Math.abs(totalProb - 1.0) > 0.001\<close>: the difference is a double subtraction, the
  absolute value and the comparison are exact, and the literal \<^verbatim>\<open>0.001\<close> is the double
  nearest to one thousandth. The error carries the name and the sum that the message
  shows.\<close>

definition createCumulativeTable :: "dist_entry list \<Rightarrow> string \<Rightarrow> error + cum_entry list" where
  "createCumulativeTable distr name =
     (if \<bar>subDouble (totalProb distr) 1\<bar> > roundDouble (1 / 1000)
      then Inl (InvalidDistribution name (totalProb distr))
      else Inr (pinLast (cumLoop 0 distr)))"

text \<open>The scan of \<^verbatim>\<open>getRandomTime\<close>: the first entry with \<^verbatim>\<open>rand <= entry.cum_prob\<close> returns;
  \<open>None\<close> is the loop running off the end of the table.\<close>

fun scanTable :: "real \<Rightarrow> cum_entry list \<Rightarrow> real option" where
  "scanTable rand [] = None"
| "scanTable rand (entry # rest) =
     (if rand \<le> cum_prob entry then Some (c_time entry) else scanTable rand rest)"

text \<open>\<^verbatim>\<open>getRandomTime\<close> for a given draw \<open>rand\<close>. On an empty table
  \<^verbatim>\<open>table[table.length - 1]\<close> is \<^verbatim>\<open>undefined\<close> and reading its \<^verbatim>\<open>time\<close> throws a TypeError.\<close>

definition sampleTable :: "real \<Rightarrow> cum_entry list \<Rightarrow> error + real" where
  "sampleTable rand table =
     (case scanTable rand table of
        Some t \<Rightarrow> Inr t
      | None \<Rightarrow> if table = [] then Inl TypeError else Inr (c_time (table ! (length table - 1))))"

text \<open>\<^verbatim>\<open>getRandomTime(type)\<close> as a method: it consumes one draw and returns the sampled
  time together with the advanced simulation.\<close>

definition getRandomTime :: "(cum_probs \<Rightarrow> cum_entry list) \<Rightarrow> sim \<Rightarrow> error + (real \<times> sim)" where
  "getRandomTime type s =
     (case sampleTable (rng s (draws s)) (type (cumProbs s)) of
        Inl e \<Rightarrow> Inl e
      | Inr t \<Rightarrow> Inr (t, s\<lparr>draws := Suc (draws s)\<rparr>))"

section \<open>The engine\<close>

text \<open>\<^verbatim>\<open>Array(numTrucks).fill(null).map((_, i) => ({ id: i + 1, state: 'IDLE' }))\<close>\<close>

definition newTrucks :: "int \<Rightarrow> truck list" where
  "newTrucks n = map (\<lambda>i. \<lparr>truck_id = int i + 1, tstate = IDLE\<rparr>) [0 ..< nat n]"

text \<open>The constructor. \<^verbatim>\<open>Array(numTrucks)\<close> throws a RangeError unless
  \<open>0 \<le> numTrucks < 2^32\<close>.\<close>

definition newSimulation ::
  "int \<Rightarrow> int \<Rightarrow> int \<Rightarrow> real \<Rightarrow> cum_probs \<Rightarrow> (nat \<Rightarrow> real) \<Rightarrow> error + sim" where
  "newSimulation nTrucks nLoaders nScales maxTime cps random =
     (if nTrucks < 0 \<or> nTrucks > 4294967295 then Inl RangeError
      else Inr \<lparr>numTrucks = nTrucks, numLoaders = nLoaders, numScales = nScales,
                maxSimTime = maxTime, cumProbs = cps, clock = 0, FEL = [],
                LQ = 0, L = 0, WQ = 0, W = 0, loaderQueue = [], weigherQueue = [],
                trucks = newTrucks nTrucks, loaderBusyTime = 0, scaleBusyTime = 0,
                rng = random, draws = 0\<rparr>)"

text \<open>\<^verbatim>\<open>this.FEL.push(event); this.FEL.sort((a, b) => a.time - b.time)\<close>: the sort is
  stable, as \<^const>\<open>sort_key\<close> is.\<close>

definition addEvent :: "event \<Rightarrow> sim \<Rightarrow> sim" where
  "addEvent ev s = s\<lparr>FEL := sort_key time (FEL s @ [ev])\<rparr>"

text \<open>\<^verbatim>\<open>this.trucks[id - 1].state = st\<close>: inside the array the entry \<open>id - 1\<close> gets the new
  state (\<open>withState\<close>); outside the array the read is \<^verbatim>\<open>undefined\<close> and the assignment throws
  a TypeError.\<close>

definition withState :: "int \<Rightarrow> truck_state \<Rightarrow> truck list \<Rightarrow> truck list" where
  "withState tid st ts = ts[nat (tid - 1) := (ts ! nat (tid - 1))\<lparr>tstate := st\<rparr>]"

definition setTruckState :: "int \<Rightarrow> truck_state \<Rightarrow> sim \<Rightarrow> error + sim" where
  "setTruckState tid st s =
     (if 1 \<le> tid \<and> tid \<le> int (length (trucks s))
      then Inr (s\<lparr>trucks := withState tid st (trucks s)\<rparr>)
      else Inl TypeError)"

text \<open>Sequencing of steps that may throw: the first exception ends the computation.\<close>

definition bindE :: "error + 'a \<Rightarrow> ('a \<Rightarrow> error + 'b) \<Rightarrow> error + 'b" where
  "bindE m f = (case m of Inl e \<Rightarrow> Inl e | Inr x \<Rightarrow> f x)"

text \<open>The block shared by \<^verbatim>\<open>init\<close>, \<^verbatim>\<open>handleALQ\<close> and the hand-off of \<^verbatim>\<open>handleEL\<close>:
  \<^verbatim>\<open>L++\<close>, phase LOADING, sample a loading time, schedule EL.\<close>

definition startLoading :: "int \<Rightarrow> sim \<Rightarrow> error + sim" where
  "startLoading tid s =
     bindE (setTruckState tid LOADING (s\<lparr>L := L s + 1\<rparr>)) (\<lambda>s1.
     bindE (getRandomTime loading s1) (\<lambda>(loadTime, s2).
     Inr (addEvent \<lparr>time = clock s2 + loadTime, etype = EL, truckId = tid\<rparr> s2)))"

text \<open>\<^verbatim>\<open>W++\<close>, phase WEIGHING, sample a weighing time, schedule EW.\<close>

definition startWeighing :: "int \<Rightarrow> sim \<Rightarrow> error + sim" where
  "startWeighing tid s =
     bindE (setTruckState tid WEIGHING (s\<lparr>W := W s + 1\<rparr>)) (\<lambda>s1.
     bindE (getRandomTime weighing s1) (\<lambda>(weighTime, s2).
     Inr (addEvent \<lparr>time = clock s2 + weighTime, etype = EW, truckId = tid\<rparr> s2)))"

text \<open>One round of the first loop of the problem-specific branch of \<^verbatim>\<open>init\<close>.\<close>

definition initLoader :: "int \<Rightarrow> sim \<Rightarrow> error + sim" where
  "initLoader tid s =
     (if L s < numLoaders s then startLoading tid s
      else setTruckState tid IN_LQ (s\<lparr>LQ := LQ s + 1, loaderQueue := loaderQueue s @ [tid]\<rparr>))"

fun initLoaders :: "int list \<Rightarrow> sim \<Rightarrow> error + sim" where
  "initLoaders [] s = Inr s"
| "initLoaders (tid # tids) s = bindE (initLoader tid s) (initLoaders tids)"

definition initScale :: "int \<Rightarrow> sim \<Rightarrow> error + sim" where
  "initScale tid s =
     (if W s < numScales s then startWeighing tid s
      else setTruckState tid IN_WQ (s\<lparr>WQ := WQ s + 1, weigherQueue := weigherQueue s @ [tid]\<rparr>))"

text \<open>The general branch: \<^verbatim>\<open>for (let i = 1; i <= this.numTrucks; i++) addEvent(...)\<close>.\<close>

fun initArrivals :: "int list \<Rightarrow> sim \<Rightarrow> sim" where
  "initArrivals [] s = s"
| "initArrivals (i # is) s = initArrivals is (addEvent \<lparr>time = 0, etype = ALQ, truckId = i\<rparr> s)"

definition init :: "sim \<Rightarrow> error + sim" where
  "init s =
     (if numTrucks s = 6 \<and> numLoaders s = 2 \<and> numScales s = 1
      then bindE (initLoaders [1, 2, 3, 4, 5] s) (initScale 6)
      else Inr (initArrivals [1 .. numTrucks s] s))"

definition handleALQ :: "event \<Rightarrow> sim \<Rightarrow> error + sim" where
  "handleALQ ev s =
     bindE (setTruckState (truckId ev) IN_LQ s) (\<lambda>s1.
       if L s1 < numLoaders s1 then startLoading (truckId ev) s1
       else Inr (s1\<lparr>LQ := LQ s1 + 1, loaderQueue := loaderQueue s1 @ [truckId ev]\<rparr>))"

text \<open>The hand-off of \<^verbatim>\<open>handleEL\<close>. \<^verbatim>\<open>shift()\<close> on an empty array gives \<^verbatim>\<open>undefined\<close>, and
  \<^verbatim>\<open>this.trucks[undefined - 1]\<close> is \<^verbatim>\<open>undefined\<close>, whose \<^verbatim>\<open>state\<close> cannot be assigned.\<close>

definition serveLoaderQueue :: "sim \<Rightarrow> error + sim" where
  "serveLoaderQueue s =
     (if LQ s > 0 then
        (case loaderQueue s of
           [] \<Rightarrow> Inl TypeError
         | nextTruckId # rest \<Rightarrow>
             bindE (setTruckState nextTruckId LOADING
                      (s\<lparr>loaderQueue := rest, LQ := LQ s - 1, L := L s + 1\<rparr>)) (\<lambda>s1.
             bindE (getRandomTime loading s1) (\<lambda>(loadTime, s2).
             Inr (addEvent \<lparr>time = clock s2 + loadTime, etype = EL, truckId = nextTruckId\<rparr> s2))))
      else Inr s)"

definition handleEL :: "event \<Rightarrow> sim \<Rightarrow> error + sim" where
  "handleEL ev s =
     bindE (setTruckState (truckId ev) IN_WQ (s\<lparr>L := L s - 1\<rparr>)) (\<lambda>s1.
     bindE (if W s1 < numScales s1 then startWeighing (truckId ev) s1
            else Inr (s1\<lparr>WQ := WQ s1 + 1, weigherQueue := weigherQueue s1 @ [truckId ev]\<rparr>))
       serveLoaderQueue)"

definition serveWeigherQueue :: "sim \<Rightarrow> error + sim" where
  "serveWeigherQueue s =
     (if WQ s > 0 then
        (case weigherQueue s of
           [] \<Rightarrow> Inl TypeError
         | nextTruckId # rest \<Rightarrow>
             bindE (setTruckState nextTruckId WEIGHING
                      (s\<lparr>weigherQueue := rest, WQ := WQ s - 1, W := W s + 1\<rparr>)) (\<lambda>s1.
             bindE (getRandomTime weighing s1) (\<lambda>(weighTime, s2).
             Inr (addEvent \<lparr>time = clock s2 + weighTime, etype = EW, truckId = nextTruckId\<rparr> s2))))
      else Inr s)"

definition handleEW :: "event \<Rightarrow> sim \<Rightarrow> error + sim" where
  "handleEW ev s =
     bindE (setTruckState (truckId ev) TRAVELING (s\<lparr>W := W s - 1\<rparr>)) (\<lambda>s1.
     bindE (getRandomTime travel s1) (\<lambda>(travelTime, s2).
     serveWeigherQueue
       (addEvent \<lparr>time = clock s2 + travelTime, etype = ALQ, truckId = truckId ev\<rparr> s2)))"

definition dispatch :: "event \<Rightarrow> sim \<Rightarrow> error + sim" where
  "dispatch ev s = (case etype ev of ALQ \<Rightarrow> handleALQ ev s | EL \<Rightarrow> handleEL ev s | EW \<Rightarrow> handleEW ev s)"

text \<open>One round of the \<^verbatim>\<open>while\<close> loop of \<^verbatim>\<open>run\<close>, from the loop head with a non-empty or
  empty event list: \<open>Exit\<close> is leaving the loop (the list is empty, or the \<^verbatim>\<open>break\<close> of the
  horizon check), \<open>Next\<close> is reaching the loop head again, \<open>Fail\<close> is an exception. The second
  component is the local variable \<^verbatim>\<open>lastEventTime\<close>.\<close>

datatype step_result = Next sim real | Exit sim real | Fail error

definition accumulate :: "real \<Rightarrow> sim \<Rightarrow> sim" where
  "accumulate timeDelta s =
     s\<lparr>loaderBusyTime := loaderBusyTime s + real_of_int (L s) * timeDelta,
       scaleBusyTime := scaleBusyTime s + real_of_int (W s) * timeDelta\<rparr>"

definition loopStep :: "sim \<Rightarrow> real \<Rightarrow> step_result" where
  "loopStep s lastEventTime =
     (case FEL s of
        [] \<Rightarrow> Exit s lastEventTime
      | ev # rest \<Rightarrow>
          if time ev > maxSimTime s then Exit (s\<lparr>FEL := rest, clock := maxSimTime s\<rparr>) lastEventTime
          else
            (case dispatch ev ((accumulate (time ev - lastEventTime) (s\<lparr>FEL := rest\<rparr>))\<lparr>clock := time ev\<rparr>) of
               Inl e \<Rightarrow> Fail e
             | Inr s' \<Rightarrow> Next s' (time ev)))"

text \<open>The loop with fuel: \<open>None\<close> is the loop still running when the fuel is used up.\<close>

fun runLoop :: "nat \<Rightarrow> sim \<Rightarrow> real \<Rightarrow> (error + sim \<times> real) option" where
  "runLoop 0 s lastEventTime = None"
| "runLoop (Suc n) s lastEventTime =
     (case loopStep s lastEventTime of
        Exit s' last' \<Rightarrow> Some (Inr (s', last'))
      | Fail e \<Rightarrow> Some (Inl e)
      | Next s' last' \<Rightarrow> runLoop n s' last')"

text \<open>The update after the loop. \<^verbatim>\<open>simulation.js\<close> guards it with \<^verbatim>\<open>if (timeDelta > 0)\<close>;
  \<^verbatim>\<open>part_000\<close> performs it unconditionally.\<close>

definition finalUpdate :: "sim \<Rightarrow> real \<Rightarrow> sim" where
  "finalUpdate s lastEventTime =
     (if clock s - lastEventTime > 0 then accumulate (clock s - lastEventTime) s else s)"

definition finalUpdate_part000 :: "sim \<Rightarrow> real \<Rightarrow> sim" where
  "finalUpdate_part000 s lastEventTime = accumulate (clock s - lastEventTime) s"

record final_stats =
  totalTime :: real
  loaderUtilization :: real
  scaleUtilization :: real

definition getFinalStats :: "sim \<Rightarrow> final_stats" where
  "getFinalStats s =
     (let totalLoaderAvailableTime = real_of_int (numLoaders s) * clock s;
          totalScaleAvailableTime = real_of_int (numScales s) * clock s
      in \<lparr>totalTime = clock s,
          loaderUtilization =
            (if totalLoaderAvailableTime > 0
             then loaderBusyTime s / totalLoaderAvailableTime * 100 else 0),
          scaleUtilization =
            (if totalScaleAvailableTime > 0
             then scaleBusyTime s / totalScaleAvailableTime * 100 else 0)\<rparr>)"

text \<open>\<^verbatim>\<open>run()\<close>, parametrised by the update after the loop. The result is the returned
  statistics together with the simulation object as \<^verbatim>\<open>run\<close> leaves it.\<close>

definition runWith ::
  "(sim \<Rightarrow> real \<Rightarrow> sim) \<Rightarrow> nat \<Rightarrow> sim \<Rightarrow> (error + final_stats \<times> sim) option" where
  "runWith final fuel s =
     (case init s of
        Inl e \<Rightarrow> Some (Inl e)
      | Inr s1 \<Rightarrow>
          (case runLoop fuel s1 0 of
             None \<Rightarrow> None
           | Some (Inl e) \<Rightarrow> Some (Inl e)
           | Some (Inr (s2, lastEventTime)) \<Rightarrow>
               Some (Inr (getFinalStats (final s2 lastEventTime), final s2 lastEventTime))))"

definition run :: "nat \<Rightarrow> sim \<Rightarrow> (error + final_stats \<times> sim) option" where
  "run = runWith finalUpdate"

definition run_part000 :: "nat \<Rightarrow> sim \<Rightarrow> (error + final_stats \<times> sim) option" where
  "run_part000 = runWith finalUpdate_part000"

text \<open>The table \<^verbatim>\<open>CUM_PROBS\<close> of \<^verbatim>\<open>part_000\<close>.\<close>

definition CUM_PROBS :: cum_probs where
  "CUM_PROBS =
     \<lparr>loading = [\<lparr>c_time = 5, cum_prob = 3 / 10\<rparr>, \<lparr>c_time = 10, cum_prob = 8 / 10\<rparr>,
                 \<lparr>c_time = 15, cum_prob = 1\<rparr>],
      weighing = [\<lparr>c_time = 12, cum_prob = 3 / 10\<rparr>, \<lparr>c_time = 14, cum_prob = 7 / 10\<rparr>,
                  \<lparr>c_time = 16, cum_prob = 1\<rparr>],
      travel = [\<lparr>c_time = 40, cum_prob = 4 / 10\<rparr>, \<lparr>c_time = 60, cum_prob = 7 / 10\<rparr>,
                \<lparr>c_time = 80, cum_prob = 1\<rparr>]\<rparr>"

section \<open>Parsing and the entry point\<close>

text \<open>\<^verbatim>\<open>String.prototype.split\<close> with a one-character separator: the pieces between the
  separators, at least one piece.\<close>

fun splitOn :: "char \<Rightarrow> string \<Rightarrow> string list" where
  "splitOn c [] = [[]]"
| "splitOn c (x # xs) =
     (if x = c then [] # splitOn c xs
      else (case splitOn c xs of [] \<Rightarrow> [[x]] | p # ps \<Rightarrow> (x # p) # ps))"

text \<open>The white space and the line terminators of ECMAScript, which
  \<^verbatim>\<open>String.prototype.trim\<close> removes, each as the bytes of its UTF-8 encoding: U+0009 to
  U+000D, U+0020, U+00A0, U+1680, U+2000 to U+200A, U+2028, U+2029, U+202F, U+205F,
  U+3000 and U+FEFF.\<close>

definition whiteSpace :: "string list" where
  "whiteSpace =
     [[CHR 0x09], [CHR 0x0A], [CHR 0x0B], [CHR 0x0C], [CHR 0x0D], [CHR 0x20],
      [CHR 0xC2, CHR 0xA0], [CHR 0xE1, CHR 0x9A, CHR 0x80],
      [CHR 0xE2, CHR 0x80, CHR 0x80], [CHR 0xE2, CHR 0x80, CHR 0x81],
      [CHR 0xE2, CHR 0x80, CHR 0x82], [CHR 0xE2, CHR 0x80, CHR 0x83],
      [CHR 0xE2, CHR 0x80, CHR 0x84], [CHR 0xE2, CHR 0x80, CHR 0x85],
      [CHR 0xE2, CHR 0x80, CHR 0x86], [CHR 0xE2, CHR 0x80, CHR 0x87],
      [CHR 0xE2, CHR 0x80, CHR 0x88], [CHR 0xE2, CHR 0x80, CHR 0x89],
      [CHR 0xE2, CHR 0x80, CHR 0x8A], [CHR 0xE2, CHR 0x80, CHR 0xA8],
      [CHR 0xE2, CHR 0x80, CHR 0xA9], [CHR 0xE2, CHR 0x80, CHR 0xAF],
      [CHR 0xE2, CHR 0x81, CHR 0x9F], [CHR 0xE3, CHR 0x80, CHR 0x80],
      [CHR 0xEF, CHR 0xBB, CHR 0xBF]]"

text \<open>The number of bytes of the element of \<open>ws\<close> that \<open>str\<close> starts with, 0 when it starts
  with none.\<close>

definition matchLen :: "string list \<Rightarrow> string \<Rightarrow> nat" where
  "matchLen ws str =
     (case List.find (\<lambda>w. take (length w) str = w) ws of None \<Rightarrow> 0 | Some w \<Rightarrow> length w)"

function stripLeading :: "string list \<Rightarrow> string \<Rightarrow> string" where
  "stripLeading ws str =
     (if matchLen ws str = 0 then str else stripLeading ws (drop (matchLen ws str) str))"
  by pat_completeness auto
termination
proof (relation "measure (\<lambda>(ws, str). length str)")
  show "wf (measure (\<lambda>(ws, str). length str))" by simp
next
  fix ws :: "string list" and str :: string
  assume "matchLen ws str \<noteq> 0"
  moreover have "matchLen ws [] = 0"
    by (auto simp: matchLen_def find_Some_iff split: option.splits)
  ultimately have "str \<noteq> []" by auto
  with \<open>matchLen ws str \<noteq> 0\<close>
  show "((ws, drop (matchLen ws str) str), (ws, str)) \<in> measure (\<lambda>(ws, str). length str)"
    by simp
qed

declare stripLeading.simps [simp del]

text \<open>\<^verbatim>\<open>String.prototype.trim\<close>: the white space is removed at both ends.\<close>

definition trim :: "string \<Rightarrow> string" where
  "trim str = rev (stripLeading (map rev whiteSpace) (rev (stripLeading whiteSpace str)))"

text \<open>The body of the loop of \<^verbatim>\<open>parseDistribution\<close> for a line that is not blank. The
  builtin \<^verbatim>\<open>parseFloat\<close> is the parameter \<open>parseFloat\<close>; \<open>None\<close> is NaN.\<close>

definition parseLine :: "(string \<Rightarrow> real option) \<Rightarrow> string \<Rightarrow> error + dist_entry" where
  "parseLine parseFloat line =
     (let parts = splitOn CHR '','' line in
      if length parts \<noteq> 2 then Inl (InvalidFormat line)
      else
        (case (parseFloat (trim (parts ! 0)), parseFloat (trim (parts ! 1))) of
           (Some t, Some p) \<Rightarrow>
             if p < 0 \<or> p > 1 then Inl (ProbabilityOutOfRange line)
             else Inr \<lparr>d_time = t, prob = p\<rparr>
         | _ \<Rightarrow> Inl (InvalidNumbers line)))"

fun parseLines :: "(string \<Rightarrow> real option) \<Rightarrow> string list \<Rightarrow> error + dist_entry list" where
  "parseLines parseFloat [] = Inr []"
| "parseLines parseFloat (line # lines) =
     (if trim line = [] then parseLines parseFloat lines
      else bindE (parseLine parseFloat line) (\<lambda>item.
           bindE (parseLines parseFloat lines) (\<lambda>items. Inr (item # items))))"

definition parseDistribution :: "(string \<Rightarrow> real option) \<Rightarrow> string \<Rightarrow> error + dist_entry list" where
  "parseDistribution parseFloat text = parseLines parseFloat (splitOn CHR 0x0A text)"

text \<open>\<^verbatim>\<open>runSimulation\<close> of \<^verbatim>\<open>simulation.js\<close>, given the four numbers that \<^verbatim>\<open>parseInt\<close> read
  and the three texts; the \<^verbatim>\<open>catch\<close> block shows the error.\<close>

definition runSimulation ::
  "(string \<Rightarrow> real option) \<Rightarrow> nat \<Rightarrow> int \<Rightarrow> int \<Rightarrow> int \<Rightarrow> real \<Rightarrow> string \<Rightarrow> string \<Rightarrow> string \<Rightarrow>
     (nat \<Rightarrow> real) \<Rightarrow> (error + final_stats \<times> sim) option" where
  "runSimulation parseFloat fuel nTrucks nLoaders nScales maxTime loadingText weighingText travelText random =
     (case
        bindE (parseDistribution parseFloat loadingText) (\<lambda>loadingDist.
        bindE (parseDistribution parseFloat weighingText) (\<lambda>weighingDist.
        bindE (parseDistribution parseFloat travelText) (\<lambda>travelDist.
        bindE (createCumulativeTable loadingDist ''Loading Time'') (\<lambda>l.
        bindE (createCumulativeTable weighingDist ''Weighing Time'') (\<lambda>w.
        bindE (createCumulativeTable travelDist ''Travel Time'') (\<lambda>t.
        newSimulation nTrucks nLoaders nScales maxTime
          \<lparr>loading = l, weighing = w, travel = t\<rparr> random))))))
      of Inl e \<Rightarrow> Some (Inl e) | Inr s \<Rightarrow> run fuel s)"

text \<open>\<^verbatim>\<open>runSimulation\<close> of \<^verbatim>\<open>part_000\<close>.\<close>

definition runSimulation_part000 ::
  "nat \<Rightarrow> int \<Rightarrow> int \<Rightarrow> int \<Rightarrow> real \<Rightarrow> (nat \<Rightarrow> real) \<Rightarrow> (error + final_stats \<times> sim) option" where
  "runSimulation_part000 fuel nTrucks nLoaders nScales maxTime random =
     (case newSimulation nTrucks nLoaders nScales maxTime CUM_PROBS random of
        Inl e \<Rightarrow> Some (Inl e) | Inr s \<Rightarrow> run_part000 fuel s)"

section \<open>Stable points of a run and the predicates of the proofs\<close>

text \<open>The stable points of a run started on the freshly constructed simulation \<open>s0\<close>: the
  loop head after \<^verbatim>\<open>init\<close> and after every processed event.\<close>

inductive reachable :: "sim \<Rightarrow> sim \<Rightarrow> real \<Rightarrow> bool" for s0 :: sim where
  after_init: "init s0 = Inr s \<Longrightarrow> reachable s0 s 0"
| after_event: "reachable s0 s lastEventTime \<Longrightarrow> loopStep s lastEventTime = Next s' last'
     \<Longrightarrow> reachable s0 s' last'"

text \<open>Busy servers never exceed the capacity, and a truck waits only while every server of
  the resource is busy.\<close>

definition workConserving :: "sim \<Rightarrow> bool" where
  "workConserving s \<longleftrightarrow> L s \<le> numLoaders s \<and> W s \<le> numScales s \<and>
     (LQ s > 0 \<longrightarrow> L s = numLoaders s) \<and> (WQ s > 0 \<longrightarrow> W s = numScales s)"

text \<open>The fields that are set by the constructor and never assigned again.\<close>

definition sameConfig :: "sim \<Rightarrow> sim \<Rightarrow> bool" where
  "sameConfig s s' \<longleftrightarrow> numTrucks s' = numTrucks s \<and> numLoaders s' = numLoaders s \<and>
     numScales s' = numScales s \<and> maxSimTime s' = maxSimTime s \<and> cumProbs s' = cumProbs s \<and>
     rng s' = rng s \<and> length (trucks s') = length (trucks s)"

text \<open>What no handler touches: the configuration, the clock and the two integrals.\<close>

definition frame :: "sim \<Rightarrow> sim \<Rightarrow> bool" where
  "frame s s' \<longleftrightarrow> sameConfig s s' \<and> clock s' = clock s \<and>
     loaderBusyTime s' = loaderBusyTime s \<and> scaleBusyTime s' = scaleBusyTime s"

text \<open>The conditions under which no handler throws: the truck array has \<^verbatim>\<open>numTrucks\<close> entries,
  the counters are the lengths of the queues, every truck identifier in the event list and in
  the queues is an index of the truck array, and no table is empty.\<close>

definition validId :: "sim \<Rightarrow> int \<Rightarrow> bool" where
  "validId s tid \<longleftrightarrow> 1 \<le> tid \<and> tid \<le> int (length (trucks s))"

definition tablesNonEmpty :: "cum_probs \<Rightarrow> bool" where
  "tablesNonEmpty cps \<longleftrightarrow> loading cps \<noteq> [] \<and> weighing cps \<noteq> [] \<and> travel cps \<noteq> []"

definition wellFormed :: "sim \<Rightarrow> bool" where
  "wellFormed s \<longleftrightarrow>
     int (length (trucks s)) = numTrucks s \<and>
     LQ s = int (length (loaderQueue s)) \<and> WQ s = int (length (weigherQueue s)) \<and>
     list_all (\<lambda>e. validId s (truckId e)) (FEL s) \<and>
     list_all (validId s) (loaderQueue s) \<and> list_all (validId s) (weigherQueue s) \<and>
     tablesNonEmpty (cumProbs s)"

definition queuesCounted :: "sim \<Rightarrow> bool" where
  "queuesCounted s \<longleftrightarrow> LQ s = int (length (loaderQueue s)) \<and> WQ s = int (length (weigherQueue s))"

text \<open>All the times of the three tables satisfy \<open>P\<close>.\<close>

definition tableTimes :: "(real \<Rightarrow> bool) \<Rightarrow> cum_probs \<Rightarrow> bool" where
  "tableTimes P cps \<longleftrightarrow> list_all (\<lambda>e. P (c_time e)) (loading cps @ weighing cps @ travel cps)"

text \<open>The event list is in time order and nothing in it lies before the clock.\<close>

definition futureOrdered :: "sim \<Rightarrow> bool" where
  "futureOrdered s \<longleftrightarrow> sorted (map time (FEL s)) \<and> list_all (\<lambda>e. clock s \<le> time e) (FEL s)"

text \<open>The times of the events that the loop processes, in the order of processing: the
  successive values of \<^verbatim>\<open>this.clock = event.time\<close>, for at most \<open>fuel\<close> rounds.\<close>

fun processedTimes :: "nat \<Rightarrow> sim \<Rightarrow> real \<Rightarrow> real list" where
  "processedTimes 0 s lastEventTime = []"
| "processedTimes (Suc n) s lastEventTime =
     (case loopStep s lastEventTime of
        Next s' last' \<Rightarrow> last' # processedTimes n s' last'
      | _ \<Rightarrow> [])"

text \<open>The number of trucks whose phase is one of \<open>phases\<close>.\<close>

definition inPhases :: "truck_state list \<Rightarrow> sim \<Rightarrow> nat" where
  "inPhases phases s = length (filter (\<lambda>t. tstate t \<in> set phases) (trucks s))"

definition activePhases :: "truck_state list" where
  "activePhases = [IN_LQ, LOADING, IN_WQ, WEIGHING, TRAVELING]"

text \<open>Every truck that is still \<open>IDLE\<close> has its arrival of time 0 pending.\<close>

definition idlePending :: "sim \<Rightarrow> bool" where
  "idlePending s \<longleftrightarrow>
     (\<forall>i < length (trucks s). tstate (trucks s ! i) = IDLE \<longrightarrow>
        \<lparr>time = 0, etype = ALQ, truckId = int i + 1\<rparr> \<in> set (FEL s))"

text \<open>From \<open>s\<close> to \<open>s'\<close> the trucks keep their number and identifiers, no truck becomes
  \<open>IDLE\<close>, and the trucks named in \<open>X\<close> are not \<open>IDLE\<close> in \<open>s'\<close>.\<close>

definition idleShrinks :: "int set \<Rightarrow> sim \<Rightarrow> sim \<Rightarrow> bool" where
  "idleShrinks X s s' \<longleftrightarrow>
     length (trucks s') = length (trucks s) \<and>
     map truck_id (trucks s') = map truck_id (trucks s) \<and>
     (\<forall>i < length (trucks s). tstate (trucks s' ! i) = IDLE \<longrightarrow>
        tstate (trucks s ! i) = IDLE \<and> int i + 1 \<notin> X)"

text \<open>A loop head of a run with horizon 0 before any time has passed: every pending event is
  an arrival of time 0 or lies after the horizon.\<close>

definition zeroPhase :: "sim \<Rightarrow> bool" where
  "zeroPhase s \<longleftrightarrow>
     maxSimTime s = 0 \<and> clock s = 0 \<and> tableTimes ((<) 0) (cumProbs s) \<and>
     list_all (\<lambda>e. (time e = 0 \<and> etype e = ALQ) \<or> 0 < time e) (FEL s)"

text \<open>The one-truck run whose three tables hold the single time 0: the truck goes round
  without the clock ever leaving 0.\<close>

definition zeroTables :: cum_probs where
  "zeroTables = \<lparr>loading = [\<lparr>c_time = 0, cum_prob = 1\<rparr>], weighing = [\<lparr>c_time = 0, cum_prob = 1\<rparr>],
                  travel = [\<lparr>c_time = 0, cum_prob = 1\<rparr>]\<rparr>"

definition zeroCycle :: "sim \<Rightarrow> bool" where
  "zeroCycle s \<longleftrightarrow>
     maxSimTime s = 0 \<and> cumProbs s = zeroTables \<and> numLoaders s = 1 \<and> numScales s = 1 \<and>
     length (trucks s) = 1 \<and> LQ s = 0 \<and> WQ s = 0 \<and>
     (FEL s = [\<lparr>time = 0, etype = ALQ, truckId = 1\<rparr>] \<and> L s = 0 \<and> W s = 0 \<or>
      FEL s = [\<lparr>time = 0, etype = EL, truckId = 1\<rparr>] \<and> L s = 1 \<and> W s = 0 \<or>
      FEL s = [\<lparr>time = 0, etype = EW, truckId = 1\<rparr>] \<and> L s = 0 \<and> W s = 1)"

section \<open>What each block and handler does when it does not throw\<close>

lemma bindE_Inr_iff: "bindE m f = Inr y \<longleftrightarrow> (\<exists>x. m = Inr x \<and> f x = Inr y)"
  by (cases m) (simp_all add: bindE_def)

lemma bindE_simps [simp]: "bindE (Inr x) f = f x" "bindE (Inl e) f = Inl e"
  by (simp_all add: bindE_def)

lemma setTruckState_Inr:
  "setTruckState tid st s = Inr s' \<longleftrightarrow>
     1 \<le> tid \<and> tid \<le> int (length (trucks s)) \<and> s' = s\<lparr>trucks := withState tid st (trucks s)\<rparr>"
  by (auto simp: setTruckState_def)

lemma getRandomTime_Inr:
  "getRandomTime ty s = Inr (t, s') \<longleftrightarrow>
     sampleTable (rng s (draws s)) (ty (cumProbs s)) = Inr t \<and> s' = s\<lparr>draws := Suc (draws s)\<rparr>"
  by (auto simp: getRandomTime_def split: sum.splits)

lemma startLoading_Inr:
  assumes "startLoading tid s = Inr s'"
  obtains t where "1 \<le> tid" "tid \<le> int (length (trucks s))"
    "sampleTable (rng s (draws s)) (loading (cumProbs s)) = Inr t"
    "s' = s\<lparr>FEL := sort_key time (FEL s @ [\<lparr>time = clock s + t, etype = EL, truckId = tid\<rparr>]),
             L := L s + 1, trucks := withState tid LOADING (trucks s), draws := Suc (draws s)\<rparr>"
  using assms
  by (auto simp: startLoading_def addEvent_def bindE_Inr_iff setTruckState_Inr getRandomTime_Inr)

lemma startWeighing_Inr:
  assumes "startWeighing tid s = Inr s'"
  obtains t where "1 \<le> tid" "tid \<le> int (length (trucks s))"
    "sampleTable (rng s (draws s)) (weighing (cumProbs s)) = Inr t"
    "s' = s\<lparr>FEL := sort_key time (FEL s @ [\<lparr>time = clock s + t, etype = EW, truckId = tid\<rparr>]),
             W := W s + 1, trucks := withState tid WEIGHING (trucks s), draws := Suc (draws s)\<rparr>"
  using assms
  by (auto simp: startWeighing_def addEvent_def bindE_Inr_iff setTruckState_Inr getRandomTime_Inr)

lemma serveLoaderQueue_Inr:
  assumes "serveLoaderQueue s = Inr s'"
  obtains (idle) "\<not> LQ s > 0" "s' = s"
  | (handoff) q qs t where "LQ s > 0" "loaderQueue s = q # qs" "1 \<le> q" "q \<le> int (length (trucks s))"
      "sampleTable (rng s (draws s)) (loading (cumProbs s)) = Inr t"
      "s' = s\<lparr>FEL := sort_key time (FEL s @ [\<lparr>time = clock s + t, etype = EL, truckId = q\<rparr>]),
               LQ := LQ s - 1, L := L s + 1, loaderQueue := qs,
               trucks := withState q LOADING (trucks s), draws := Suc (draws s)\<rparr>"
proof (cases "LQ s > 0")
  case False
  with assms have "s' = s" by (simp add: serveLoaderQueue_def)
  with False show thesis by (rule idle)
next
  case True
  with assms obtain q qs where q: "loaderQueue s = q # qs"
    by (cases "loaderQueue s") (simp_all add: serveLoaderQueue_def)
  with assms True show thesis
    by (auto simp: serveLoaderQueue_def addEvent_def bindE_Inr_iff setTruckState_Inr
        getRandomTime_Inr intro: handoff)
qed

lemma serveWeigherQueue_Inr:
  assumes "serveWeigherQueue s = Inr s'"
  obtains (idle) "\<not> WQ s > 0" "s' = s"
  | (handoff) q qs t where "WQ s > 0" "weigherQueue s = q # qs" "1 \<le> q" "q \<le> int (length (trucks s))"
      "sampleTable (rng s (draws s)) (weighing (cumProbs s)) = Inr t"
      "s' = s\<lparr>FEL := sort_key time (FEL s @ [\<lparr>time = clock s + t, etype = EW, truckId = q\<rparr>]),
               WQ := WQ s - 1, W := W s + 1, weigherQueue := qs,
               trucks := withState q WEIGHING (trucks s), draws := Suc (draws s)\<rparr>"
proof (cases "WQ s > 0")
  case False
  with assms have "s' = s" by (simp add: serveWeigherQueue_def)
  with False show thesis by (rule idle)
next
  case True
  with assms obtain q qs where q: "weigherQueue s = q # qs"
    by (cases "weigherQueue s") (simp_all add: serveWeigherQueue_def)
  with assms True show thesis
    by (auto simp: serveWeigherQueue_def addEvent_def bindE_Inr_iff setTruckState_Inr
        getRandomTime_Inr intro: handoff)
qed

lemma length_withState [simp]: "length (withState tid st ts) = length ts"
  by (simp add: withState_def)

lemma withState_overwrite [simp]: "withState tid st (withState tid st' ts) = withState tid st ts"
  by (cases "nat (tid - 1) < length ts") (simp_all add: withState_def not_less list_update_beyond)

lemma handleALQ_cases:
  assumes "handleALQ ev s = Inr s'"
  obtains (load) t where "L s < numLoaders s" "1 \<le> truckId ev" "truckId ev \<le> int (length (trucks s))"
      "sampleTable (rng s (draws s)) (loading (cumProbs s)) = Inr t"
      "s' = s\<lparr>FEL := sort_key time (FEL s @ [\<lparr>time = clock s + t, etype = EL, truckId = truckId ev\<rparr>]),
               L := L s + 1, trucks := withState (truckId ev) LOADING (trucks s),
               draws := Suc (draws s)\<rparr>"
  | (queue) "\<not> L s < numLoaders s" "1 \<le> truckId ev" "truckId ev \<le> int (length (trucks s))"
      "s' = s\<lparr>LQ := LQ s + 1, loaderQueue := loaderQueue s @ [truckId ev],
               trucks := withState (truckId ev) IN_LQ (trucks s)\<rparr>"
proof -
  from assms obtain s1 where s1: "setTruckState (truckId ev) IN_LQ s = Inr s1"
    and rest: "(if L s1 < numLoaders s1 then startLoading (truckId ev) s1
        else Inr (s1\<lparr>LQ := LQ s1 + 1, loaderQueue := loaderQueue s1 @ [truckId ev]\<rparr>)) = Inr s'"
    unfolding handleALQ_def bindE_Inr_iff by blast
  from s1 have r: "1 \<le> truckId ev" "truckId ev \<le> int (length (trucks s))"
    and e1: "s1 = s\<lparr>trucks := withState (truckId ev) IN_LQ (trucks s)\<rparr>"
    by (simp_all add: setTruckState_Inr)
  show thesis
  proof (cases "L s < numLoaders s")
    case True
    with rest e1 have "startLoading (truckId ev) s1 = Inr s'" by simp
    then show thesis
      by (rule startLoading_Inr) (use True r e1 in \<open>auto intro!: load\<close>)
  next
    case False
    with rest e1 r show thesis by (auto intro!: queue)
  qed
qed

lemma handleEL_cases:
  assumes "handleEL ev s = Inr s'"
  obtains (weigh_idle) tw where "W s < numScales s" "\<not> LQ s > 0"
      "1 \<le> truckId ev" "truckId ev \<le> int (length (trucks s))"
      "sampleTable (rng s (draws s)) (weighing (cumProbs s)) = Inr tw"
      "s' = s\<lparr>FEL := sort_key time (FEL s @ [\<lparr>time = clock s + tw, etype = EW, truckId = truckId ev\<rparr>]),
               L := L s - 1, W := W s + 1, trucks := withState (truckId ev) WEIGHING (trucks s),
               draws := Suc (draws s)\<rparr>"
  | (weigh_handoff) tw q qs tl where "W s < numScales s" "LQ s > 0" "loaderQueue s = q # qs"
      "1 \<le> truckId ev" "truckId ev \<le> int (length (trucks s))" "1 \<le> q" "q \<le> int (length (trucks s))"
      "sampleTable (rng s (draws s)) (weighing (cumProbs s)) = Inr tw"
      "sampleTable (rng s (Suc (draws s))) (loading (cumProbs s)) = Inr tl"
      "s' = s\<lparr>FEL := sort_key time
                 (sort_key time (FEL s @ [\<lparr>time = clock s + tw, etype = EW, truckId = truckId ev\<rparr>])
                  @ [\<lparr>time = clock s + tl, etype = EL, truckId = q\<rparr>]),
               LQ := LQ s - 1, W := W s + 1, loaderQueue := qs,
               trucks := withState q LOADING (withState (truckId ev) WEIGHING (trucks s)),
               draws := Suc (Suc (draws s))\<rparr>"
  | (queue_idle) "\<not> W s < numScales s" "\<not> LQ s > 0"
      "1 \<le> truckId ev" "truckId ev \<le> int (length (trucks s))"
      "s' = s\<lparr>L := L s - 1, WQ := WQ s + 1, weigherQueue := weigherQueue s @ [truckId ev],
               trucks := withState (truckId ev) IN_WQ (trucks s)\<rparr>"
  | (queue_handoff) q qs tl where "\<not> W s < numScales s" "LQ s > 0" "loaderQueue s = q # qs"
      "1 \<le> truckId ev" "truckId ev \<le> int (length (trucks s))" "1 \<le> q" "q \<le> int (length (trucks s))"
      "sampleTable (rng s (draws s)) (loading (cumProbs s)) = Inr tl"
      "s' = s\<lparr>FEL := sort_key time (FEL s @ [\<lparr>time = clock s + tl, etype = EL, truckId = q\<rparr>]),
               LQ := LQ s - 1, WQ := WQ s + 1, loaderQueue := qs,
               weigherQueue := weigherQueue s @ [truckId ev],
               trucks := withState q LOADING (withState (truckId ev) IN_WQ (trucks s)),
               draws := Suc (draws s)\<rparr>"
proof -
  from assms obtain s1 s2 where s1: "setTruckState (truckId ev) IN_WQ (s\<lparr>L := L s - 1\<rparr>) = Inr s1"
    and s2: "(if W s1 < numScales s1 then startWeighing (truckId ev) s1
        else Inr (s1\<lparr>WQ := WQ s1 + 1, weigherQueue := weigherQueue s1 @ [truckId ev]\<rparr>)) = Inr s2"
    and s3: "serveLoaderQueue s2 = Inr s'"
    unfolding handleEL_def bindE_Inr_iff by blast
  from s1 have r: "1 \<le> truckId ev" "truckId ev \<le> int (length (trucks s))"
    and e1: "s1 = s\<lparr>L := L s - 1, trucks := withState (truckId ev) IN_WQ (trucks s)\<rparr>"
    by (simp_all add: setTruckState_Inr)
  show thesis
  proof (cases "W s < numScales s")
    case True
    with s2 e1 have "startWeighing (truckId ev) s1 = Inr s2" by simp
    then obtain tw where tw: "sampleTable (rng s1 (draws s1)) (weighing (cumProbs s1)) = Inr tw"
      and e2: "s2 = s1\<lparr>FEL := sort_key time (FEL s1 @ [\<lparr>time = clock s1 + tw, etype = EW, truckId = truckId ev\<rparr>]),
             W := W s1 + 1, trucks := withState (truckId ev) WEIGHING (trucks s1), draws := Suc (draws s1)\<rparr>"
      by (rule startWeighing_Inr)
    from s3 show thesis
    proof (cases rule: serveLoaderQueue_Inr)
      case idle
      with True r tw e1 e2 show thesis by (auto intro!: weigh_idle)
    next
      case (handoff q qs t)
      with True r tw e1 e2 show thesis by (auto intro!: weigh_handoff)
    qed
  next
    case False
    with s2 e1 have e2: "s2 = s1\<lparr>WQ := WQ s1 + 1, weigherQueue := weigherQueue s1 @ [truckId ev]\<rparr>"
      by simp
    from s3 show thesis
    proof (cases rule: serveLoaderQueue_Inr)
      case idle
      with False r e1 e2 show thesis by (auto intro!: queue_idle)
    next
      case (handoff q qs t)
      with False r e1 e2 show thesis by (auto intro!: queue_handoff)
    qed
  qed
qed

lemma handleEW_cases:
  assumes "handleEW ev s = Inr s'"
  obtains (idle) tt where "\<not> WQ s > 0"
      "1 \<le> truckId ev" "truckId ev \<le> int (length (trucks s))"
      "sampleTable (rng s (draws s)) (travel (cumProbs s)) = Inr tt"
      "s' = s\<lparr>FEL := sort_key time (FEL s @ [\<lparr>time = clock s + tt, etype = ALQ, truckId = truckId ev\<rparr>]),
               W := W s - 1, trucks := withState (truckId ev) TRAVELING (trucks s),
               draws := Suc (draws s)\<rparr>"
  | (handoff) tt q qs tw where "WQ s > 0" "weigherQueue s = q # qs"
      "1 \<le> truckId ev" "truckId ev \<le> int (length (trucks s))" "1 \<le> q" "q \<le> int (length (trucks s))"
      "sampleTable (rng s (draws s)) (travel (cumProbs s)) = Inr tt"
      "sampleTable (rng s (Suc (draws s))) (weighing (cumProbs s)) = Inr tw"
      "s' = s\<lparr>FEL := sort_key time
                 (sort_key time (FEL s @ [\<lparr>time = clock s + tt, etype = ALQ, truckId = truckId ev\<rparr>])
                  @ [\<lparr>time = clock s + tw, etype = EW, truckId = q\<rparr>]),
               WQ := WQ s - 1, weigherQueue := qs,
               trucks := withState q WEIGHING (withState (truckId ev) TRAVELING (trucks s)),
               draws := Suc (Suc (draws s))\<rparr>"
proof -
  from assms obtain s1 tt s2 where s1: "setTruckState (truckId ev) TRAVELING (s\<lparr>W := W s - 1\<rparr>) = Inr s1"
    and s2: "getRandomTime travel s1 = Inr (tt, s2)"
    and s3: "serveWeigherQueue
       (addEvent \<lparr>time = clock s2 + tt, etype = ALQ, truckId = truckId ev\<rparr> s2) = Inr s'"
    unfolding handleEW_def bindE_Inr_iff by auto
  from s1 have r: "1 \<le> truckId ev" "truckId ev \<le> int (length (trucks s))"
    and e1: "s1 = s\<lparr>W := W s - 1, trucks := withState (truckId ev) TRAVELING (trucks s)\<rparr>"
    by (simp_all add: setTruckState_Inr)
  from s2 have tt: "sampleTable (rng s1 (draws s1)) (travel (cumProbs s1)) = Inr tt"
    and e2: "s2 = s1\<lparr>draws := Suc (draws s1)\<rparr>"
    by (simp_all add: getRandomTime_Inr)
  from s3 show thesis
  proof (cases rule: serveWeigherQueue_Inr)
    case idle
    with r tt e1 e2 show thesis by (auto simp: addEvent_def intro!: that(1))
  next
    case (handoff q qs t)
    with r tt e1 e2 show thesis by (auto simp: addEvent_def intro!: that(2))
  qed
qed

section \<open>The handlers keep the invariants and do not throw\<close>

lemma handleALQ_workConserving:
  "handleALQ ev s = Inr s' \<Longrightarrow> workConserving s \<Longrightarrow> workConserving s'"
  by (erule handleALQ_cases) (auto simp: workConserving_def)

lemma handleEL_workConserving:
  "handleEL ev s = Inr s' \<Longrightarrow> workConserving s \<Longrightarrow> workConserving s'"
  by (erule handleEL_cases) (auto simp: workConserving_def)

lemma handleEW_workConserving:
  "handleEW ev s = Inr s' \<Longrightarrow> workConserving s \<Longrightarrow> workConserving s'"
  by (erule handleEW_cases) (auto simp: workConserving_def)

lemma dispatch_workConserving:
  "dispatch ev s = Inr s' \<Longrightarrow> workConserving s \<Longrightarrow> workConserving s'"
  by (cases "etype ev")
    (auto simp: dispatch_def
      intro: handleALQ_workConserving handleEL_workConserving handleEW_workConserving)

lemma handleALQ_frame: "handleALQ ev s = Inr s' \<Longrightarrow> frame s s'"
  by (erule handleALQ_cases) (auto simp: frame_def sameConfig_def)

lemma handleEL_frame: "handleEL ev s = Inr s' \<Longrightarrow> frame s s'"
  by (erule handleEL_cases) (auto simp: frame_def sameConfig_def)

lemma handleEW_frame: "handleEW ev s = Inr s' \<Longrightarrow> frame s s'"
  by (erule handleEW_cases) (auto simp: frame_def sameConfig_def)

lemma dispatch_frame: "dispatch ev s = Inr s' \<Longrightarrow> frame s s'"
  by (cases "etype ev") (auto simp: dispatch_def intro: handleALQ_frame handleEL_frame handleEW_frame)

lemma handleALQ_wellFormed: "handleALQ ev s = Inr s' \<Longrightarrow> wellFormed s \<Longrightarrow> wellFormed s'"
  by (erule handleALQ_cases) (auto simp: wellFormed_def list_all_iff validId_def)

lemma handleEL_wellFormed: "handleEL ev s = Inr s' \<Longrightarrow> wellFormed s \<Longrightarrow> wellFormed s'"
  by (erule handleEL_cases) (auto simp: wellFormed_def list_all_iff validId_def)

lemma handleEW_wellFormed: "handleEW ev s = Inr s' \<Longrightarrow> wellFormed s \<Longrightarrow> wellFormed s'"
  by (erule handleEW_cases) (auto simp: wellFormed_def list_all_iff validId_def)

lemma dispatch_wellFormed: "dispatch ev s = Inr s' \<Longrightarrow> wellFormed s \<Longrightarrow> wellFormed s'"
  by (cases "etype ev")
    (auto simp: dispatch_def intro: handleALQ_wellFormed handleEL_wellFormed handleEW_wellFormed)

text \<open>Progress: under the conditions of \<open>wellFormed\<close> every block and every handler returns
  without an exception.\<close>

lemma scanTable_None_last: "scanTable r tb = None \<Longrightarrow> tb \<noteq> [] \<Longrightarrow> sampleTable r tb = Inr (c_time (last tb))"
  by (simp add: sampleTable_def last_conv_nth)

lemma sampleTable_ok: "tb \<noteq> [] \<Longrightarrow> \<exists>t. sampleTable r tb = Inr t"
  by (cases "scanTable r tb") (simp_all add: sampleTable_def)

lemma startLoading_ok:
  assumes "validId s tid" "loading (cumProbs s) \<noteq> []"
  shows "\<exists>s'. startLoading tid s = Inr s'"
proof -
  from assms(2) obtain t where "sampleTable (rng s (draws s)) (loading (cumProbs s)) = Inr t"
    using sampleTable_ok by blast
  with assms(1) show ?thesis
    by (simp add: startLoading_def setTruckState_def getRandomTime_def validId_def)
qed

lemma startWeighing_ok:
  assumes "validId s tid" "weighing (cumProbs s) \<noteq> []"
  shows "\<exists>s'. startWeighing tid s = Inr s'"
proof -
  from assms(2) obtain t where "sampleTable (rng s (draws s)) (weighing (cumProbs s)) = Inr t"
    using sampleTable_ok by blast
  with assms(1) show ?thesis
    by (simp add: startWeighing_def setTruckState_def getRandomTime_def validId_def)
qed

lemma serveLoaderQueue_ok:
  assumes "LQ s = int (length (loaderQueue s))" "list_all (validId s) (loaderQueue s)"
    "loading (cumProbs s) \<noteq> []"
  shows "\<exists>s'. serveLoaderQueue s = Inr s'"
proof (cases "loaderQueue s")
  case Nil
  with assms show ?thesis by (simp add: serveLoaderQueue_def)
next
  case (Cons q qs)
  from assms(3) obtain t where "sampleTable (rng s (draws s)) (loading (cumProbs s)) = Inr t"
    using sampleTable_ok by blast
  with Cons assms(2) show ?thesis
    by (simp add: serveLoaderQueue_def setTruckState_def getRandomTime_def validId_def)
qed

lemma serveWeigherQueue_ok:
  assumes "WQ s = int (length (weigherQueue s))" "list_all (validId s) (weigherQueue s)"
    "weighing (cumProbs s) \<noteq> []"
  shows "\<exists>s'. serveWeigherQueue s = Inr s'"
proof (cases "weigherQueue s")
  case Nil
  with assms show ?thesis by (simp add: serveWeigherQueue_def)
next
  case (Cons q qs)
  from assms(3) obtain t where "sampleTable (rng s (draws s)) (weighing (cumProbs s)) = Inr t"
    using sampleTable_ok by blast
  with Cons assms(2) show ?thesis
    by (simp add: serveWeigherQueue_def setTruckState_def getRandomTime_def validId_def)
qed

lemma handleALQ_ok:
  assumes "wellFormed s" "validId s (truckId ev)"
  shows "\<exists>s'. handleALQ ev s = Inr s'"
proof -
  let ?s1 = "s\<lparr>trucks := withState (truckId ev) IN_LQ (trucks s)\<rparr>"
  from assms(2) have 1: "setTruckState (truckId ev) IN_LQ s = Inr ?s1"
    by (simp add: setTruckState_def validId_def)
  from assms have "validId ?s1 (truckId ev)" "loading (cumProbs ?s1) \<noteq> []"
    by (simp_all add: validId_def wellFormed_def tablesNonEmpty_def)
  then obtain s2 where "startLoading (truckId ev) ?s1 = Inr s2"
    using startLoading_ok by blast
  with 1 show ?thesis by (simp add: handleALQ_def)
qed

lemma handleEL_ok:
  assumes "wellFormed s" "validId s (truckId ev)"
  shows "\<exists>s'. handleEL ev s = Inr s'"
proof -
  let ?s1 = "s\<lparr>L := L s - 1, trucks := withState (truckId ev) IN_WQ (trucks s)\<rparr>"
  from assms(2) have 1: "setTruckState (truckId ev) IN_WQ (s\<lparr>L := L s - 1\<rparr>) = Inr ?s1"
    by (simp add: setTruckState_def validId_def)
  from assms have "validId ?s1 (truckId ev)" "weighing (cumProbs ?s1) \<noteq> []"
    by (simp_all add: validId_def wellFormed_def tablesNonEmpty_def)
  then obtain sw where sw: "startWeighing (truckId ev) ?s1 = Inr sw"
    using startWeighing_ok by blast
  define s2 where "s2 = (if W ?s1 < numScales ?s1 then sw
     else ?s1\<lparr>WQ := WQ ?s1 + 1, weigherQueue := weigherQueue ?s1 @ [truckId ev]\<rparr>)"
  have 2: "(if W ?s1 < numScales ?s1 then startWeighing (truckId ev) ?s1
      else Inr (?s1\<lparr>WQ := WQ ?s1 + 1, weigherQueue := weigherQueue ?s1 @ [truckId ev]\<rparr>)) = Inr s2"
    by (simp add: s2_def sw)
  from sw assms have "LQ s2 = int (length (loaderQueue s2)) \<and> list_all (validId s2) (loaderQueue s2)
     \<and> loading (cumProbs s2) \<noteq> []"
    unfolding s2_def
    by (auto simp: wellFormed_def tablesNonEmpty_def validId_def list_all_iff elim!: startWeighing_Inr)
  then obtain s3 where "serveLoaderQueue s2 = Inr s3"
    using serveLoaderQueue_ok by blast
  with 1 2 show ?thesis by (simp add: handleEL_def)
qed

lemma handleEW_ok:
  assumes "wellFormed s" "validId s (truckId ev)"
  shows "\<exists>s'. handleEW ev s = Inr s'"
proof -
  let ?s1 = "s\<lparr>W := W s - 1, trucks := withState (truckId ev) TRAVELING (trucks s)\<rparr>"
  from assms(2) have 1: "setTruckState (truckId ev) TRAVELING (s\<lparr>W := W s - 1\<rparr>) = Inr ?s1"
    by (simp add: setTruckState_def validId_def)
  from assms(1) obtain tt where "sampleTable (rng s (draws s)) (travel (cumProbs s)) = Inr tt"
    using sampleTable_ok by (auto simp: wellFormed_def tablesNonEmpty_def)
  then have 2: "getRandomTime travel ?s1 = Inr (tt, ?s1\<lparr>draws := Suc (draws s)\<rparr>)"
    by (simp add: getRandomTime_def)
  let ?s3 = "addEvent \<lparr>time = clock s + tt, etype = ALQ, truckId = truckId ev\<rparr>
      (?s1\<lparr>draws := Suc (draws s)\<rparr>)"
  from assms have "WQ ?s3 = int (length (weigherQueue ?s3)) \<and> list_all (validId ?s3) (weigherQueue ?s3)
     \<and> weighing (cumProbs ?s3) \<noteq> []"
    by (auto simp: wellFormed_def tablesNonEmpty_def validId_def list_all_iff addEvent_def)
  then obtain s4 where "serveWeigherQueue ?s3 = Inr s4"
    using serveWeigherQueue_ok by blast
  with 1 2 show ?thesis by (simp add: handleEW_def)
qed

lemma dispatch_ok: "wellFormed s \<Longrightarrow> validId s (truckId ev) \<Longrightarrow> \<exists>s'. dispatch ev s = Inr s'"
  by (cases "etype ev") (simp_all add: dispatch_def handleALQ_ok handleEL_ok handleEW_ok)

section \<open>Initialisation, the rounds of the loop and induction over a run\<close>

lemma initLoader_cases:
  assumes "initLoader tid s = Inr s'"
  obtains (load) t where "L s < numLoaders s" "1 \<le> tid" "tid \<le> int (length (trucks s))"
      "sampleTable (rng s (draws s)) (loading (cumProbs s)) = Inr t"
      "s' = s\<lparr>FEL := sort_key time (FEL s @ [\<lparr>time = clock s + t, etype = EL, truckId = tid\<rparr>]),
               L := L s + 1, trucks := withState tid LOADING (trucks s), draws := Suc (draws s)\<rparr>"
  | (queue) "\<not> L s < numLoaders s" "1 \<le> tid" "tid \<le> int (length (trucks s))"
      "s' = s\<lparr>LQ := LQ s + 1, loaderQueue := loaderQueue s @ [tid],
               trucks := withState tid IN_LQ (trucks s)\<rparr>"
proof (cases "L s < numLoaders s")
  case True
  with assms have "startLoading tid s = Inr s'" by (simp add: initLoader_def)
  then show thesis by (rule startLoading_Inr) (use True in \<open>auto intro!: load\<close>)
next
  case False
  with assms show thesis by (auto simp: initLoader_def setTruckState_Inr intro!: queue)
qed

lemma initScale_cases:
  assumes "initScale tid s = Inr s'"
  obtains (weigh) t where "W s < numScales s" "1 \<le> tid" "tid \<le> int (length (trucks s))"
      "sampleTable (rng s (draws s)) (weighing (cumProbs s)) = Inr t"
      "s' = s\<lparr>FEL := sort_key time (FEL s @ [\<lparr>time = clock s + t, etype = EW, truckId = tid\<rparr>]),
               W := W s + 1, trucks := withState tid WEIGHING (trucks s), draws := Suc (draws s)\<rparr>"
  | (queue) "\<not> W s < numScales s" "1 \<le> tid" "tid \<le> int (length (trucks s))"
      "s' = s\<lparr>WQ := WQ s + 1, weigherQueue := weigherQueue s @ [tid],
               trucks := withState tid IN_WQ (trucks s)\<rparr>"
proof (cases "W s < numScales s")
  case True
  with assms have "startWeighing tid s = Inr s'" by (simp add: initScale_def)
  then show thesis by (rule startWeighing_Inr) (use True in \<open>auto intro!: weigh\<close>)
next
  case False
  with assms show thesis by (auto simp: initScale_def setTruckState_Inr intro!: queue)
qed

text \<open>An induction principle for the problem-specific branch of \<open>init\<close>: what both
  placement blocks preserve holds after it.\<close>

lemma initLoaders_induct:
  assumes "initLoaders tids s = Inr s'" "P s"
    and "\<And>tid s s'. initLoader tid s = Inr s' \<Longrightarrow> P s \<Longrightarrow> P s'"
  shows "P s'"
  using assms(1,2)
proof (induction tids arbitrary: s)
  case Nil
  then show ?case by simp
next
  case (Cons tid tids)
  from Cons.prems(1) obtain s1 where "initLoader tid s = Inr s1" "initLoaders tids s1 = Inr s'"
    by (auto simp: bindE_Inr_iff)
  with Cons.IH Cons.prems(2) assms(3) show ?case by blast
qed

lemma init_special:
  assumes "init s = Inr s'" "numTrucks s = 6 \<and> numLoaders s = 2 \<and> numScales s = 1"
  obtains s1 where "initLoaders [1, 2, 3, 4, 5] s = Inr s1" "initScale 6 s1 = Inr s'"
proof -
  from assms have "bindE (initLoaders [1, 2, 3, 4, 5] s) (initScale 6) = Inr s'"
    unfolding init_def by (simp only: if_True simp_thms)
  then show thesis
    unfolding bindE_Inr_iff using that by blast
qed

lemma init_general:
  assumes "init s = Inr s'" "\<not> (numTrucks s = 6 \<and> numLoaders s = 2 \<and> numScales s = 1)"
  shows "s' = initArrivals [1 .. numTrucks s] s"
  using assms unfolding init_def by (simp only: if_False sum.inject)

lemma init_induct:
  assumes "init s = Inr s'" "P s"
    and "\<And>tid s s'. initLoader tid s = Inr s' \<Longrightarrow> P s \<Longrightarrow> P s'"
    and "\<And>tid s s'. initScale tid s = Inr s' \<Longrightarrow> P s \<Longrightarrow> P s'"
    and "\<And>ev s1. time ev = 0 \<Longrightarrow> etype ev = ALQ \<Longrightarrow> 1 \<le> truckId ev \<Longrightarrow> truckId ev \<le> numTrucks s
           \<Longrightarrow> P s1 \<Longrightarrow> P (addEvent ev s1)"
  shows "P s'"
proof (cases "numTrucks s = 6 \<and> numLoaders s = 2 \<and> numScales s = 1")
  case True
  with assms(1) obtain s1 where 1: "initLoaders [1, 2, 3, 4, 5] s = Inr s1" and 2: "initScale 6 s1 = Inr s'"
    by (rule init_special)
  from 1 assms(2,3) have "P s1" by (rule initLoaders_induct)
  with 2 assms(4) show ?thesis by blast
next
  case False
  with assms(1) have e: "s' = initArrivals [1 .. numTrucks s] s" by (rule init_general)
  have "P (initArrivals is s1)" if "P s1" "set is \<subseteq> {1 .. numTrucks s}" for "is" s1
    using that by (induction "is" arbitrary: s1) (simp_all add: assms(5))
  with assms(2) e show ?thesis by simp
qed

lemma loopStep_Next:
  assumes "loopStep s lastEventTime = Next s' last'"
  obtains ev rest where "FEL s = ev # rest" "\<not> time ev > maxSimTime s" "last' = time ev"
    "dispatch ev ((accumulate (time ev - lastEventTime) (s\<lparr>FEL := rest\<rparr>))\<lparr>clock := time ev\<rparr>) = Inr s'"
  using assms by (auto simp: loopStep_def split: list.splits if_splits sum.splits)

lemma reachable_invariant:
  assumes "reachable s0 s lastEventTime" "P s0"
    and "\<And>tid s s'. initLoader tid s = Inr s' \<Longrightarrow> P s \<Longrightarrow> P s'"
    and "\<And>tid s s'. initScale tid s = Inr s' \<Longrightarrow> P s \<Longrightarrow> P s'"
    and "\<And>ev s1. time ev = 0 \<Longrightarrow> etype ev = ALQ \<Longrightarrow> 1 \<le> truckId ev \<Longrightarrow> truckId ev \<le> numTrucks s0
           \<Longrightarrow> P s1 \<Longrightarrow> P (addEvent ev s1)"
    and "\<And>ev rest s d. FEL s = ev # rest \<Longrightarrow> P s
           \<Longrightarrow> P ((accumulate d (s\<lparr>FEL := rest\<rparr>))\<lparr>clock := time ev\<rparr>)"
    and "\<And>ev s s'. dispatch ev s = Inr s' \<Longrightarrow> P s \<Longrightarrow> P s'"
  shows "P s"
  using assms(1)
proof (induction rule: reachable.induct)
  case (after_init s)
  from this assms(2,3,4,5) show ?case by (rule init_induct)
next
  case (after_event s lastEventTime s' last')
  from after_event.hyps(2) obtain ev rest where "FEL s = ev # rest"
    "dispatch ev ((accumulate (time ev - lastEventTime) (s\<lparr>FEL := rest\<rparr>))\<lparr>clock := time ev\<rparr>) = Inr s'"
    by (rule loopStep_Next)
  with after_event.IH assms(6,7) show ?case by blast
qed

section \<open>Invariants of the reachable states\<close>

lemma newSimulation_Inr:
  assumes "newSimulation nTrucks nLoaders nScales maxTime cps random = Inr s0"
  shows "0 \<le> nTrucks" and
    "s0 = \<lparr>numTrucks = nTrucks, numLoaders = nLoaders, numScales = nScales,
            maxSimTime = maxTime, cumProbs = cps, clock = 0, FEL = [],
            LQ = 0, L = 0, WQ = 0, W = 0, loaderQueue = [], weigherQueue = [],
            trucks = newTrucks nTrucks, loaderBusyTime = 0, scaleBusyTime = 0,
            rng = random, draws = 0\<rparr>"
  using assms by (auto simp: newSimulation_def split: if_splits)

lemma reachable_sameConfig:
  assumes "reachable s0 s lastEventTime"
  shows "sameConfig s0 s"
  using assms
proof (rule reachable_invariant)
  show "sameConfig s0 s0" by (simp add: sameConfig_def)
  show "sameConfig s0 s2" if "initLoader tid s1 = Inr s2" "sameConfig s0 s1" for tid s1 s2
    using that by (cases rule: initLoader_cases) (auto simp: sameConfig_def)
  show "sameConfig s0 s2" if "initScale tid s1 = Inr s2" "sameConfig s0 s1" for tid s1 s2
    using that by (cases rule: initScale_cases) (auto simp: sameConfig_def)
  show "sameConfig s0 (addEvent ev s1)" if "sameConfig s0 s1" for ev s1
    using that by (simp add: sameConfig_def addEvent_def)
  show "sameConfig s0 ((accumulate d (s1\<lparr>FEL := rest\<rparr>))\<lparr>clock := time ev\<rparr>)"
    if "sameConfig s0 s1" for ev :: event and rest s1 d
    using that by (simp add: sameConfig_def accumulate_def)
  show "sameConfig s0 s2" if "dispatch ev s1 = Inr s2" "sameConfig s0 s1" for ev s1 s2
    using dispatch_frame [OF that(1)] that(2) by (simp add: frame_def sameConfig_def)
qed

lemma reachable_workConserving:
  assumes "reachable s0 s lastEventTime" "workConserving s0"
  shows "workConserving s"
  using assms
proof (rule reachable_invariant)
  show "workConserving s2" if "initLoader tid s1 = Inr s2" "workConserving s1" for tid s1 s2
    using that by (cases rule: initLoader_cases) (auto simp: workConserving_def)
  show "workConserving s2" if "initScale tid s1 = Inr s2" "workConserving s1" for tid s1 s2
    using that by (cases rule: initScale_cases) (auto simp: workConserving_def)
  show "workConserving (addEvent ev s1)" if "workConserving s1" for ev s1
    using that by (simp add: workConserving_def addEvent_def)
  show "workConserving ((accumulate d (s1\<lparr>FEL := rest\<rparr>))\<lparr>clock := time ev\<rparr>)"
    if "workConserving s1" for ev :: event and rest s1 d
    using that by (simp add: workConserving_def accumulate_def)
  show "workConserving s2" if "dispatch ev s1 = Inr s2" "workConserving s1" for ev s1 s2
    using that by (rule dispatch_workConserving)
qed

lemma dispatch_queuesCounted: "dispatch ev s = Inr s' \<Longrightarrow> queuesCounted s \<Longrightarrow> queuesCounted s'"
  unfolding dispatch_def
  by (cases "etype ev";
      auto simp: queuesCounted_def elim!: handleALQ_cases handleEL_cases handleEW_cases)

lemma reachable_queuesCounted:
  assumes "reachable s0 s lastEventTime" "queuesCounted s0"
  shows "queuesCounted s"
  using assms
proof (rule reachable_invariant)
  show "queuesCounted s2" if "initLoader tid s1 = Inr s2" "queuesCounted s1" for tid s1 s2
    using that by (cases rule: initLoader_cases) (auto simp: queuesCounted_def)
  show "queuesCounted s2" if "initScale tid s1 = Inr s2" "queuesCounted s1" for tid s1 s2
    using that by (cases rule: initScale_cases) (auto simp: queuesCounted_def)
  show "queuesCounted (addEvent ev s1)" if "queuesCounted s1" for ev s1
    using that by (simp add: queuesCounted_def addEvent_def)
  show "queuesCounted ((accumulate d (s1\<lparr>FEL := rest\<rparr>))\<lparr>clock := time ev\<rparr>)"
    if "queuesCounted s1" for ev :: event and rest s1 d
    using that by (simp add: queuesCounted_def accumulate_def)
  show "queuesCounted s2" if "dispatch ev s1 = Inr s2" "queuesCounted s1" for ev s1 s2
    using that by (rule dispatch_queuesCounted)
qed

lemma initLoader_wellFormed:
  "initLoader tid s = Inr s' \<Longrightarrow> wellFormed s \<Longrightarrow> wellFormed s' \<and> numTrucks s' = numTrucks s"
  by (erule initLoader_cases) (auto simp: wellFormed_def list_all_iff validId_def)

lemma initScale_wellFormed:
  "initScale tid s = Inr s' \<Longrightarrow> wellFormed s \<Longrightarrow> wellFormed s' \<and> numTrucks s' = numTrucks s"
  by (erule initScale_cases) (auto simp: wellFormed_def list_all_iff validId_def)

lemma addEvent_wellFormed:
  "wellFormed s \<Longrightarrow> 1 \<le> truckId ev \<Longrightarrow> truckId ev \<le> numTrucks s \<Longrightarrow> wellFormed (addEvent ev s)"
  by (auto simp: wellFormed_def list_all_iff validId_def addEvent_def)

lemma pop_wellFormed:
  "wellFormed s \<Longrightarrow> FEL s = ev # rest \<Longrightarrow>
     wellFormed ((accumulate d (s\<lparr>FEL := rest\<rparr>))\<lparr>clock := t\<rparr>) \<and>
     validId ((accumulate d (s\<lparr>FEL := rest\<rparr>))\<lparr>clock := t\<rparr>) (truckId ev)"
  by (auto simp: wellFormed_def list_all_iff validId_def accumulate_def)

lemma reachable_wellFormed:
  assumes "reachable s0 s lastEventTime" "wellFormed s0"
  shows "wellFormed s"
proof -
  have "wellFormed s \<and> numTrucks s = numTrucks s0"
    using assms(1)
  proof (rule reachable_invariant)
    show "wellFormed s0 \<and> numTrucks s0 = numTrucks s0" using assms(2) by simp
    show "wellFormed s2 \<and> numTrucks s2 = numTrucks s0"
      if "initLoader tid s1 = Inr s2" "wellFormed s1 \<and> numTrucks s1 = numTrucks s0" for tid s1 s2
      using initLoader_wellFormed [OF that(1)] that(2) by simp
    show "wellFormed s2 \<and> numTrucks s2 = numTrucks s0"
      if "initScale tid s1 = Inr s2" "wellFormed s1 \<and> numTrucks s1 = numTrucks s0" for tid s1 s2
      using initScale_wellFormed [OF that(1)] that(2) by simp
    show "wellFormed (addEvent ev s1) \<and> numTrucks (addEvent ev s1) = numTrucks s0"
      if "1 \<le> truckId ev" "truckId ev \<le> numTrucks s0" "wellFormed s1 \<and> numTrucks s1 = numTrucks s0"
      for ev s1
      using addEvent_wellFormed [of s1 ev] that by (simp add: addEvent_def)
    show "wellFormed ((accumulate d (s1\<lparr>FEL := rest\<rparr>))\<lparr>clock := time ev\<rparr>) \<and>
        numTrucks ((accumulate d (s1\<lparr>FEL := rest\<rparr>))\<lparr>clock := time ev\<rparr>) = numTrucks s0"
      if "FEL s1 = ev # rest" "wellFormed s1 \<and> numTrucks s1 = numTrucks s0"
      for ev :: event and rest s1 d
      using pop_wellFormed [where s = s1 and ev = ev and rest = rest and d = d and t = "time ev"] that
      by (simp add: accumulate_def)
    show "wellFormed s2 \<and> numTrucks s2 = numTrucks s0"
      if "dispatch ev s1 = Inr s2" "wellFormed s1 \<and> numTrucks s1 = numTrucks s0" for ev s1 s2
      using dispatch_frame [OF that(1)] dispatch_wellFormed [OF that(1)] that(2)
      by (simp add: frame_def sameConfig_def)
  qed
  then show ?thesis ..
qed

lemma initLoader_ok:
  assumes "validId s tid" "loading (cumProbs s) \<noteq> []"
  shows "\<exists>s'. initLoader tid s = Inr s'"
proof (cases "L s < numLoaders s")
  case True
  then show ?thesis using startLoading_ok [OF assms] by (simp add: initLoader_def)
next
  case False
  with assms(1) show ?thesis by (simp add: initLoader_def setTruckState_def validId_def)
qed

lemma initScale_ok:
  assumes "validId s tid" "weighing (cumProbs s) \<noteq> []"
  shows "\<exists>s'. initScale tid s = Inr s'"
proof (cases "W s < numScales s")
  case True
  then show ?thesis using startWeighing_ok [OF assms] by (simp add: initScale_def)
next
  case False
  with assms(1) show ?thesis by (simp add: initScale_def setTruckState_def validId_def)
qed

lemma initLoader_sameConfig: "initLoader tid s = Inr s' \<Longrightarrow> sameConfig s s'"
  by (erule initLoader_cases) (auto simp: sameConfig_def)

lemma sameConfig_trans: "sameConfig s s1 \<Longrightarrow> sameConfig s1 s2 \<Longrightarrow> sameConfig s s2"
  by (simp add: sameConfig_def)

lemma initLoaders_ok:
  assumes "list_all (validId s) tids" "loading (cumProbs s) \<noteq> []"
  shows "\<exists>s'. initLoaders tids s = Inr s' \<and> sameConfig s s'"
  using assms
proof (induction tids arbitrary: s)
  case Nil
  then show ?case by (simp add: sameConfig_def)
next
  case (Cons tid tids)
  from Cons.prems have "validId s tid" by simp
  with Cons.prems(2) obtain s1 where 1: "initLoader tid s = Inr s1"
    using initLoader_ok by blast
  then have c: "sameConfig s s1" by (rule initLoader_sameConfig)
  then have "length (trucks s1) = length (trucks s)" and "cumProbs s1 = cumProbs s"
    by (simp_all add: sameConfig_def)
  then have "validId s1 = validId s" "cumProbs s1 = cumProbs s"
    by (simp_all add: validId_def fun_eq_iff)
  with Cons.prems have "list_all (validId s1) tids" "loading (cumProbs s1) \<noteq> []"
    by simp_all
  with Cons.IH obtain s2 where 2: "initLoaders tids s1 = Inr s2" and c2: "sameConfig s1 s2"
    by blast
  from c c2 have "sameConfig s s2" by (rule sameConfig_trans)
  moreover from 1 2 have "initLoaders (tid # tids) s = Inr s2" by simp
  ultimately show ?case by blast
qed

lemma init_ok:
  assumes "wellFormed s"
  shows "\<exists>s'. init s = Inr s'"
proof (cases "numTrucks s = 6 \<and> numLoaders s = 2 \<and> numScales s = 1")
  case True
  with assms have len: "length (trucks s) = 6" and tb: "tablesNonEmpty (cumProbs s)"
    by (auto simp: wellFormed_def)
  then have "list_all (validId s) [1, 2, 3, 4, 5]" "loading (cumProbs s) \<noteq> []"
    by (simp_all add: validId_def tablesNonEmpty_def)
  then obtain s1 where 1: "initLoaders [1, 2, 3, 4, 5] s = Inr s1" and c: "sameConfig s s1"
    using initLoaders_ok by blast
  from c len tb have "validId s1 6" "weighing (cumProbs s1) \<noteq> []"
    by (simp_all add: validId_def tablesNonEmpty_def sameConfig_def)
  then obtain s2 where "initScale 6 s1 = Inr s2"
    using initScale_ok by blast
  with 1 True show ?thesis
    unfolding init_def by (simp only: if_True simp_thms bindE_simps) blast
next
  case False
  then show ?thesis unfolding init_def by (simp only: if_False) blast
qed

text \<open>No exception is thrown during a run that starts from a well-formed simulation.\<close>

lemma loopStep_no_exception:
  assumes "wellFormed s"
  shows "loopStep s lastEventTime \<noteq> Fail e"
proof (cases "FEL s")
  case Nil
  then show ?thesis by (simp add: loopStep_def)
next
  case (Cons ev rest)
  let ?mid = "(accumulate (time ev - lastEventTime) (s\<lparr>FEL := rest\<rparr>))\<lparr>clock := time ev\<rparr>"
  from assms Cons have "wellFormed ?mid \<and> validId ?mid (truckId ev)"
    by (rule pop_wellFormed)
  then obtain s' where "dispatch ev ?mid = Inr s'"
    using dispatch_ok by blast
  with Cons show ?thesis by (simp add: loopStep_def)
qed

lemma newSimulation_wellFormed:
  assumes "newSimulation nTrucks nLoaders nScales maxTime cps random = Inr s0" "tablesNonEmpty cps"
  shows "wellFormed s0"
  using assms(2) newSimulation_Inr [OF assms(1)]
  by (simp add: wellFormed_def newTrucks_def)

text \<open>A run with non-empty tables throws no exception: \<open>init\<close> succeeds and no round of the
  loop fails.\<close>

lemma run_no_exception:
  assumes "newSimulation nTrucks nLoaders nScales maxTime cps random = Inr s0" "tablesNonEmpty cps"
  shows "\<exists>s1. init s0 = Inr s1"
    and "reachable s0 s lastEventTime \<Longrightarrow> loopStep s lastEventTime \<noteq> Fail e"
proof -
  from assms have wf: "wellFormed s0" by (rule newSimulation_wellFormed)
  then show "\<exists>s1. init s0 = Inr s1" by (rule init_ok)
  assume "reachable s0 s lastEventTime"
  from this wf have "wellFormed s" by (rule reachable_wellFormed)
  then show "loopStep s lastEventTime \<noteq> Fail e" by (rule loopStep_no_exception)
qed

section \<open>Capacity and work conservation\<close>

lemmas engine_defs = newSimulation_def newTrucks_def init_def initLoader_def initScale_def
  loopStep_def accumulate_def dispatch_def handleALQ_def handleEL_def handleEW_def
  startLoading_def startWeighing_def serveLoaderQueue_def serveWeigherQueue_def
  setTruckState_def withState_def getRandomTime_def sampleTable_def addEvent_def CUM_PROBS_def

lemma newSimulation_workConserving:
  assumes "newSimulation nTrucks nLoaders nScales maxTime cps random = Inr s0"
    "0 \<le> nLoaders" "0 \<le> nScales"
  shows "workConserving s0"
  using assms(2,3) newSimulation_Inr(2) [OF assms(1)] by (simp add: workConserving_def)

lemma newSimulation_config:
  assumes "newSimulation nTrucks nLoaders nScales maxTime cps random = Inr s0"
    "reachable s0 s lastEventTime"
  shows "numTrucks s = nTrucks" "numLoaders s = nLoaders" "numScales s = nScales"
    "maxSimTime s = maxTime" "cumProbs s = cps" "rng s = random"
  using reachable_sameConfig [OF assms(2)] newSimulation_Inr(2) [OF assms(1)]
  by (simp_all add: sameConfig_def)

text \<open>
  C1 (capacity invariant). For every valid configuration and every reachable state of a run
  (after initialisation and after each processed event), the number of busy loaders is at most
  the number of loaders and the number of busy scales is at most the number of scales.
\<close>

theorem capacity_invariant:
  assumes "newSimulation nTrucks nLoaders nScales maxTime cps random = Inr s0"
    and "1 \<le> nLoaders" and "1 \<le> nScales" and "1 \<le> nTrucks"
    and "reachable s0 s lastEventTime"
  shows "L s \<le> nLoaders \<and> W s \<le> nScales"
proof -
  from assms(2,3) have "0 \<le> nLoaders" "0 \<le> nScales" by simp_all
  with assms(1) have "workConserving s0" by (rule newSimulation_workConserving)
  with assms(5) have "workConserving s" by (rule reachable_workConserving)
  with newSimulation_config(2,3) [OF assms(1,5)] show ?thesis
    by (simp add: workConserving_def)
qed

theorem capacity_invariant_witness:
  "\<exists>s0 s1 s2. newSimulation 2 1 1 100 CUM_PROBS (\<lambda>_. 1 / 2) = Inr s0 \<and> init s0 = Inr s1 \<and>
     loopStep s1 0 = Next s2 0 \<and> L s2 = 1 \<and> L s2 \<le> 1 \<and> W s2 \<le> 1"
proof -
  have "\<exists>s0 s1 s2. newSimulation 2 1 1 100 CUM_PROBS (\<lambda>_. 1 / 2) = Inr s0 \<and> init s0 = Inr s1 \<and>
     loopStep s1 0 = Next s2 0 \<and> L s2 = 1"
    by (simp add: engine_defs upto.simps upt_rec)
  then obtain s0 s1 s2 where 0: "newSimulation 2 1 1 100 CUM_PROBS (\<lambda>_. 1 / 2) = Inr s0"
    and 1: "init s0 = Inr s1" and 2: "loopStep s1 0 = Next s2 0" and 3: "L s2 = 1"
    by blast
  from 1 have "reachable s0 s1 0" by (rule after_init)
  from this 2 have "reachable s0 s2 0" by (rule after_event)
  with 0 have "L s2 \<le> 1 \<and> W s2 \<le> 1" by (intro capacity_invariant [of 2 1 1 100 CUM_PROBS "\<lambda>_. 1 / 2" s0 s2 0]) simp_all
  with 0 1 2 3 show ?thesis by blast
qed

lemma newSimulation_queuesCounted:
  assumes "newSimulation nTrucks nLoaders nScales maxTime cps random = Inr s0"
  shows "queuesCounted s0"
  using newSimulation_Inr(2) [OF assms] by (simp add: queuesCounted_def)

text \<open>
  C10 (work conservation). In every reachable state of a run with a valid configuration, a
  non-empty loader queue means that all loaders are busy and a non-empty scale queue means that
  all scales are busy, both for the queue-length counters and for the FIFO lists themselves.
  The property holds after \<open>init\<close> and is kept by every handler
  (\<open>dispatch_workConserving\<close>).
\<close>

theorem work_conserving:
  assumes "newSimulation nTrucks nLoaders nScales maxTime cps random = Inr s0"
    and "1 \<le> nLoaders" and "1 \<le> nScales" and "1 \<le> nTrucks"
    and "reachable s0 s lastEventTime"
  shows "(LQ s > 0 \<longrightarrow> L s = nLoaders) \<and> (WQ s > 0 \<longrightarrow> W s = nScales) \<and>
         (loaderQueue s \<noteq> [] \<longrightarrow> L s = nLoaders) \<and> (weigherQueue s \<noteq> [] \<longrightarrow> W s = nScales)"
proof -
  from assms(2,3) have "0 \<le> nLoaders" "0 \<le> nScales" by simp_all
  with assms(1) have "workConserving s0" by (rule newSimulation_workConserving)
  with assms(5) have wc: "workConserving s" by (rule reachable_workConserving)
  from assms(1) have "queuesCounted s0" by (rule newSimulation_queuesCounted)
  with assms(5) have "queuesCounted s" by (rule reachable_queuesCounted)
  then have "loaderQueue s \<noteq> [] \<longrightarrow> LQ s > 0" "weigherQueue s \<noteq> [] \<longrightarrow> WQ s > 0"
    by (simp_all add: queuesCounted_def)
  with wc newSimulation_config(2,3) [OF assms(1,5)] show ?thesis
    by (simp add: workConserving_def)
qed

theorem work_conserving_witness:
  "\<exists>s0 s1 s2. newSimulation 6 2 1 100 CUM_PROBS (\<lambda>_. 1 / 2) = Inr s0 \<and> init s0 = Inr s1 \<and>
     LQ s1 = 3 \<and> loaderQueue s1 = [3, 4, 5] \<and> L s1 = 2 \<and>
     loopStep s1 0 = Next s2 10 \<and> WQ s2 = 1 \<and> weigherQueue s2 = [1] \<and> W s2 = 1 \<and>
     LQ s2 = 2 \<and> L s2 = 2"
proof -
  have "\<exists>s0 s1 s2. newSimulation 6 2 1 100 CUM_PROBS (\<lambda>_. 1 / 2) = Inr s0 \<and> init s0 = Inr s1 \<and>
     LQ s1 = 3 \<and> loaderQueue s1 = [3, 4, 5] \<and>
     loopStep s1 0 = Next s2 10 \<and> WQ s2 = 1 \<and> weigherQueue s2 = [1] \<and> LQ s2 = 2"
    by (simp add: engine_defs upt_rec)
  then obtain s0 s1 s2 where 0: "newSimulation 6 2 1 100 CUM_PROBS (\<lambda>_. 1 / 2) = Inr s0"
    and 1: "init s0 = Inr s1" and 2: "LQ s1 = 3" "loaderQueue s1 = [3, 4, 5]"
    and 3: "loopStep s1 0 = Next s2 10" and 4: "WQ s2 = 1" "weigherQueue s2 = [1]" "LQ s2 = 2"
    by (elim exE conjE) (rule that)
  from 1 have r1: "reachable s0 s1 0" by (rule after_init)
  from r1 3 have r2: "reachable s0 s2 10" by (rule after_event)
  from 0 r1 have "(LQ s1 > 0 \<longrightarrow> L s1 = 2) \<and> (WQ s1 > 0 \<longrightarrow> W s1 = 1) \<and>
         (loaderQueue s1 \<noteq> [] \<longrightarrow> L s1 = 2) \<and> (weigherQueue s1 \<noteq> [] \<longrightarrow> W s1 = 1)"
    by (intro work_conserving [of 6 2 1 100 CUM_PROBS "\<lambda>_. 1 / 2" s0 s1 0]) simp_all
  moreover from 0 r2 have "(LQ s2 > 0 \<longrightarrow> L s2 = 2) \<and> (WQ s2 > 0 \<longrightarrow> W s2 = 1) \<and>
         (loaderQueue s2 \<noteq> [] \<longrightarrow> L s2 = 2) \<and> (weigherQueue s2 \<noteq> [] \<longrightarrow> W s2 = 1)"
    by (intro work_conserving [of 6 2 1 100 CUM_PROBS "\<lambda>_. 1 / 2" s0 s2 10]) simp_all
  ultimately have "L s1 = 2" "W s2 = 1" "L s2 = 2" using 2 4 by simp_all
  with 0 1 2 3 4 show ?thesis
    by (intro exI [of _ s0] exI [of _ s1] exI [of _ s2]) simp
qed

section \<open>Sampling\<close>

lemma scanTable_None_iff: "scanTable r tb = None \<longleftrightarrow> (\<forall>e \<in> set tb. cum_prob e < r)"
  by (induction tb) auto

lemma scanTable_Some_iff:
  "scanTable r tb = Some t \<longleftrightarrow>
     (\<exists>i < length tb. r \<le> cum_prob (tb ! i) \<and> (\<forall>j < i. cum_prob (tb ! j) < r) \<and> t = c_time (tb ! i))"
proof (induction tb)
  case Nil
  then show ?case by simp
next
  case (Cons e tb)
  show ?case
  proof (cases "r \<le> cum_prob e")
    case True
    have "(\<exists>i < length (e # tb). r \<le> cum_prob ((e # tb) ! i) \<and>
            (\<forall>j < i. cum_prob ((e # tb) ! j) < r) \<and> t = c_time ((e # tb) ! i)) \<longleftrightarrow> t = c_time e"
    proof
      assume "\<exists>i < length (e # tb). r \<le> cum_prob ((e # tb) ! i) \<and>
            (\<forall>j < i. cum_prob ((e # tb) ! j) < r) \<and> t = c_time ((e # tb) ! i)"
      then obtain i where i: "\<forall>j < i. cum_prob ((e # tb) ! j) < r" "t = c_time ((e # tb) ! i)"
        by blast
      from i(1) True have "i = 0" by (cases i) auto
      with i(2) show "t = c_time e" by simp
    next
      assume "t = c_time e"
      with True show "\<exists>i < length (e # tb). r \<le> cum_prob ((e # tb) ! i) \<and>
            (\<forall>j < i. cum_prob ((e # tb) ! j) < r) \<and> t = c_time ((e # tb) ! i)"
        by (intro exI [of _ 0]) simp
    qed
    with True show ?thesis by auto
  next
    case False
    have "(\<exists>i < length (e # tb). r \<le> cum_prob ((e # tb) ! i) \<and>
            (\<forall>j < i. cum_prob ((e # tb) ! j) < r) \<and> t = c_time ((e # tb) ! i)) \<longleftrightarrow>
          (\<exists>i < length tb. r \<le> cum_prob (tb ! i) \<and> (\<forall>j < i. cum_prob (tb ! j) < r) \<and> t = c_time (tb ! i))"
      (is "?l \<longleftrightarrow> ?r")
    proof
      assume ?l
      then obtain i where i: "i < length (e # tb)" "r \<le> cum_prob ((e # tb) ! i)"
        "\<forall>j < i. cum_prob ((e # tb) ! j) < r" "t = c_time ((e # tb) ! i)"
        by blast
      from i(2) False obtain k where k: "i = Suc k" by (cases i) auto
      from i(3) k have "\<forall>j < k. cum_prob (tb ! j) < r" by auto
      with i(1,2,4) k show ?r by auto
    next
      assume ?r
      then obtain i where i: "i < length tb" "r \<le> cum_prob (tb ! i)"
        "\<forall>j < i. cum_prob (tb ! j) < r" "t = c_time (tb ! i)"
        by blast
      from i(3) False have "\<forall>j < Suc i. cum_prob ((e # tb) ! j) < r"
        by (auto simp: less_Suc_eq_0_disj)
      with i(1,2,4) show ?l by (intro exI [of _ "Suc i"]) simp
    qed
    with False Cons.IH show ?thesis by simp
  qed
qed

lemma scanTable_in_table: "scanTable r tb = Some t \<Longrightarrow> t \<in> c_time ` set tb"
  by (auto simp: scanTable_Some_iff)

lemma sampleTable_in_table: "sampleTable r tb = Inr t \<Longrightarrow> t \<in> c_time ` set tb"
  by (auto simp: sampleTable_def scanTable_in_table split: option.splits if_splits)

text \<open>
  C6 (sampling). For a non-empty cumulative table, \<open>getRandomTime\<close> consumes one draw \<open>r\<close> and
  returns the time of the first entry, in table order, whose cumulative probability is at
  least \<open>r\<close>; when no entry qualifies it returns the time of the last entry. The returned time
  always occurs in the table. (Nothing is assumed about \<open>r\<close>, so this covers every draw in
  \<open>[0, 1)\<close>.)
\<close>

theorem getRandomTime_spec:
  assumes "type (cumProbs s) \<noteq> []"
  shows "\<exists>t. getRandomTime type s = Inr (t, s\<lparr>draws := Suc (draws s)\<rparr>) \<and>
           t \<in> c_time ` set (type (cumProbs s)) \<and>
           ((\<exists>i < length (type (cumProbs s)).
               rng s (draws s) \<le> cum_prob (type (cumProbs s) ! i) \<and>
               (\<forall>j < i. cum_prob (type (cumProbs s) ! j) < rng s (draws s)) \<and>
               t = c_time (type (cumProbs s) ! i))
            \<or> ((\<forall>e \<in> set (type (cumProbs s)). cum_prob e < rng s (draws s)) \<and>
                t = c_time (last (type (cumProbs s)))))"
proof -
  let ?tb = "type (cumProbs s)" and ?r = "rng s (draws s)"
  from assms obtain t where t: "sampleTable ?r ?tb = Inr t"
    using sampleTable_ok by blast
  then have 1: "getRandomTime type s = Inr (t, s\<lparr>draws := Suc (draws s)\<rparr>)"
    by (simp add: getRandomTime_def)
  from t have 2: "t \<in> c_time ` set ?tb" by (rule sampleTable_in_table)
  have 3: "(\<exists>i < length ?tb. ?r \<le> cum_prob (?tb ! i) \<and> (\<forall>j < i. cum_prob (?tb ! j) < ?r) \<and>
               t = c_time (?tb ! i))
            \<or> ((\<forall>e \<in> set ?tb. cum_prob e < ?r) \<and> t = c_time (last ?tb))"
  proof (cases "scanTable ?r ?tb")
    case None
    with assms t have "t = c_time (last ?tb)" by (simp add: scanTable_None_last)
    with None show ?thesis by (simp add: scanTable_None_iff)
  next
    case (Some u)
    with t have "u = t" by (simp add: sampleTable_def)
    with Some show ?thesis by (simp add: scanTable_Some_iff)
  qed
  from 1 2 3 show ?thesis by blast
qed

theorem getRandomTime_spec_witness:
  "\<exists>s0 t s'. newSimulation 1 1 1 100 CUM_PROBS (\<lambda>_. 1 / 2) = Inr s0 \<and>
     getRandomTime loading s0 = Inr (t, s') \<and> t = 10 \<and> draws s' = 1 \<and>
     t \<in> c_time ` set (loading CUM_PROBS) \<and>
     (\<exists>u. getRandomTime loading (s0\<lparr>cumProbs := \<lparr>loading = [\<lparr>c_time = 7, cum_prob = 1 / 4\<rparr>],
        weighing = [], travel = []\<rparr>\<rparr>) = Inr (u, s'\<lparr>cumProbs := \<lparr>loading = [\<lparr>c_time = 7, cum_prob = 1 / 4\<rparr>],
        weighing = [], travel = []\<rparr>\<rparr>) \<and> u = 7)"
proof -
  define s0 where "s0 = \<lparr>numTrucks = 1, numLoaders = 1, numScales = 1,
            maxSimTime = 100, cumProbs = CUM_PROBS, clock = 0, FEL = [],
            LQ = 0, L = 0, WQ = 0, W = 0, loaderQueue = [], weigherQueue = [],
            trucks = newTrucks 1, loaderBusyTime = 0, scaleBusyTime = 0,
            rng = (\<lambda>_. 1 / 2), draws = 0\<rparr>"
  let ?low = "\<lparr>loading = [\<lparr>c_time = 7, cum_prob = 1 / 4\<rparr>], weighing = [], travel = []\<rparr>"
  have 0: "newSimulation 1 1 1 100 CUM_PROBS (\<lambda>_. 1 / 2) = Inr s0"
    by (simp add: newSimulation_def s0_def)
  have ne: "loading (cumProbs s0) \<noteq> []" by (simp add: s0_def CUM_PROBS_def)
  from getRandomTime_spec [of loading s0, OF ne]
  obtain t where t: "getRandomTime loading s0 = Inr (t, s0\<lparr>draws := Suc (draws s0)\<rparr>)"
    "t \<in> c_time ` set (loading (cumProbs s0))"
    by blast
  from t(1) have t10: "t = 10"
    by (simp add: getRandomTime_def sampleTable_def s0_def CUM_PROBS_def)
  have "loading (cumProbs (s0\<lparr>cumProbs := ?low\<rparr>)) \<noteq> []" by simp
  from getRandomTime_spec [of loading "s0\<lparr>cumProbs := ?low\<rparr>", OF this]
  obtain u where u: "getRandomTime loading (s0\<lparr>cumProbs := ?low\<rparr>)
       = Inr (u, s0\<lparr>cumProbs := ?low, draws := Suc (draws s0)\<rparr>)"
    "u \<in> c_time ` set [\<lparr>c_time = 7, cum_prob = 1 / 4\<rparr>]"
    by auto
  from u(2) have "u = 7" by simp
  with 0 t t10 u(1) show ?thesis
    by (intro exI [of _ s0] exI [of _ t] exI [of _ "s0\<lparr>draws := Suc (draws s0)\<rparr>"])
       (simp add: s0_def)
qed

section \<open>Construction of the cumulative table\<close>

lemma roundDouble_values:
  "roundDouble 0 = 0" "roundDouble 1 = 1" "roundDouble (- 1) = - 1"
  "roundDouble (1 / 1000) = 1152921504606847 / 1152921504606846976"
  by (simp_all add: roundDouble_def binade.simps roundHalfEven_def Let_def)

lemma createCumulativeTable_single:
  "createCumulativeTable [\<lparr>d_time = t, prob = 1\<rparr>] name = Inr [\<lparr>c_time = t, cum_prob = 1\<rparr>]"
  by (simp add: createCumulativeTable_def totalProb_def pinLast_def addDouble_def subDouble_def
      roundDouble_values)

lemma totalProb_fold: "totalProb d = foldl addDouble 0 (map prob d)"
  by (simp add: totalProb_def foldl_map)

lemma length_cumLoop [simp]: "length (cumLoop c d) = length d"
  by (induction d arbitrary: c) simp_all

lemma nth_cumLoop:
  "i < length d \<Longrightarrow>
     cumLoop c d ! i =
       \<lparr>c_time = d_time (d ! i), cum_prob = foldl addDouble c (map prob (take (Suc i) d))\<rparr>"
proof (induction d arbitrary: c i)
  case Nil
  then show ?case by simp
next
  case (Cons a d)
  then show ?case by (cases i) simp_all
qed

lemma length_pinLast [simp]: "length (pinLast t) = length t"
  by (simp add: pinLast_def)

lemma nth_pinLast:
  "i < length t \<Longrightarrow> pinLast t ! i = (if Suc i = length t then (t ! i)\<lparr>cum_prob := 1\<rparr> else t ! i)"
  by (auto simp: pinLast_def nth_list_update)

lemma splitOn_examples: "splitOn CHR '','' ''5, 0.3'' = [''5'', '' 0.3'']" "trim '' 0.3 '' = ''0.3''"
  "splitOn CHR 0x0A [CHR ''a'', CHR 0x0A, CHR 0x0A, CHR ''b''] = [''a'', '''', ''b'']"
  "splitOn CHR '','' '''' = ['''']"
  "trim [CHR 0xC2, CHR 0xA0, CHR 0x09, CHR ''7'', CHR '' '', CHR 0xE2, CHR 0x80, CHR 0xA8, CHR 0xEF, CHR 0xBB, CHR 0xBF]
     = ''7''"
  "trim [CHR '' '', CHR 0x0D] = ''''"
  by (simp_all add: trim_def whiteSpace_def matchLen_def stripLeading.simps)

lemma parseLines_probs:
  "parseLines pf lines = Inr d \<Longrightarrow> list_all (\<lambda>e. 0 \<le> prob e \<and> prob e \<le> 1) d"
proof (induction lines arbitrary: d)
  case Nil
  then show ?case by simp
next
  case (Cons line lines)
  show ?case
  proof (cases "trim line = []")
    case True
    with Cons show ?thesis by simp
  next
    case False
    with Cons.prems obtain item items where 1: "parseLine pf line = Inr item"
      and 2: "parseLines pf lines = Inr items" and 3: "d = item # items"
      by (auto simp: bindE_Inr_iff)
    from 1 have "0 \<le> prob item \<and> prob item \<le> 1"
      by (auto simp: parseLine_def Let_def split: if_splits option.splits)
    with Cons.IH [OF 2] 3 show ?thesis by simp
  qed
qed

lemma parseLine_error:
  "parseLine pf line = Inl e \<Longrightarrow> e \<in> {InvalidFormat line, InvalidNumbers line, ProbabilityOutOfRange line}"
  by (auto simp: parseLine_def Let_def split: if_splits option.splits)

lemma parseLines_error:
  "parseLines pf lines = Inl e \<Longrightarrow>
     \<exists>line. e \<in> {InvalidFormat line, InvalidNumbers line, ProbabilityOutOfRange line}"
proof (induction lines)
  case Nil
  then show ?case by simp
next
  case (Cons line lines)
  show ?case
  proof (cases "trim line = []")
    case True
    with Cons show ?thesis by simp
  next
    case False
    show ?thesis
    proof (cases "parseLine pf line")
      case (Inl e')
      with False Cons.prems have "e' = e" by simp
      with Inl parseLine_error show ?thesis by blast
    next
      case (Inr item)
      with False Cons.prems have "parseLines pf lines = Inl e"
        by (cases "parseLines pf lines") simp_all
      with Cons.IH show ?thesis by blast
    qed
  qed
qed

lemma parseDistribution_probs:
  "parseDistribution pf inp = Inr d \<Longrightarrow> list_all (\<lambda>e. 0 \<le> prob e \<and> prob e \<le> 1) d"
  unfolding parseDistribution_def by (rule parseLines_probs)

lemma parseDistribution_error:
  "parseDistribution pf inp = Inl e \<Longrightarrow>
     \<exists>line. e \<in> {InvalidFormat line, InvalidNumbers line, ProbabilityOutOfRange line}"
  unfolding parseDistribution_def by (rule parseLines_error)

lemma createCumulativeTable_Inr:
  assumes "createCumulativeTable d name = Inr t"
  shows "\<bar>subDouble (foldl addDouble 0 (map prob d)) 1\<bar> \<le> roundDouble (1 / 1000)"
    "t = pinLast (cumLoop 0 d)" "d \<noteq> []"
proof -
  from assms show "\<bar>subDouble (foldl addDouble 0 (map prob d)) 1\<bar> \<le> roundDouble (1 / 1000)"
    and "t = pinLast (cumLoop 0 d)"
    by (auto simp: createCumulativeTable_def totalProb_fold split: if_splits)
  have "\<exists>e. createCumulativeTable [] name = Inl e"
    by (simp add: createCumulativeTable_def totalProb_def subDouble_def roundDouble_values)
  with assms show "d \<noteq> []" by auto
qed

lemma roundDouble_tenths:
  "roundDouble (1 / 10) = 3602879701896397 / 36028797018963968"
  "roundDouble (99 / 1000) = 3566850904877433 / 36028797018963968"
  "roundDouble (3 / 10) = 5404319552844595 / 18014398509481984"
  "roundDouble (2 / 10) = 3602879701896397 / 18014398509481984"
  "roundDouble (8 / 10) = 3602879701896397 / 4503599627370496"
  "roundDouble (95 / 100) = 4278419646001971 / 4503599627370496"
  by (simp_all add: roundDouble_def binade.simps roundHalfEven_def Let_def)

text \<open>
  C7 (construction of the cumulative table), as the code has it. The sum of the
  probabilities that \<open>createCumulativeTable\<close> tests is the one the code computes: the
  probabilities added from left to right, each addition rounded to a double, starting
  from 0 (\<open>foldl addDouble 0\<close>). The construction fails exactly when that sum, less 1 in
  double arithmetic, is in absolute value more than the double nearest to 0.001; the
  error is then \<open>InvalidDistribution\<close> with the name and the computed sum. The empty list
  is such a case (its sum is 0). The construction does not look at the sign of a
  probability: a probability outside \<open>[0, 1]\<close> is rejected earlier, by \<open>parseDistribution\<close>,
  with another error, so whatever \<open>parseDistribution\<close> returns has all its probabilities
  in \<open>[0, 1]\<close>. When the construction succeeds, the table has the length of the input and
  the times of the input, every entry but the last holds the running sum, computed in the
  same way, of the probabilities up to and including it, and the last entry is exactly 1;
  when the computed sum of all the probabilities is exactly 1, the last entry is the
  running sum too.

  The computed sum is not the exact one. The text of nine lines \<^verbatim>\<open>5, 0.1\<close> and a line
  \<^verbatim>\<open>5, 0.099\<close> parses to ten probabilities in \<open>[0, 1]\<close> whose exact sum is within 0.001 of
  1; the code adds them to 0.9989999999999999, finds the difference from 1 larger than
  0.001 and throws. The line \<^verbatim>\<open>5, -0.5\<close>, with its negative probability, is rejected by
  \<open>parseDistribution\<close>, with the error of a probability out of range.
\<close>

theorem createCumulativeTable_spec:
  "((\<exists>e. createCumulativeTable d name = Inl e) \<longleftrightarrow>
      \<bar>subDouble (foldl addDouble 0 (map prob d)) 1\<bar> > roundDouble (1 / 1000)) \<and>
   (\<forall>e. createCumulativeTable d name = Inl e \<longrightarrow>
      e = InvalidDistribution name (foldl addDouble 0 (map prob d))) \<and>
   (d = [] \<longrightarrow> (\<exists>e. createCumulativeTable d name = Inl e)) \<and>
   (\<forall>t. createCumulativeTable d name = Inr t \<longrightarrow>
      length t = length d \<and>
      (\<forall>i < length d. c_time (t ! i) = d_time (d ! i)) \<and>
      (\<forall>i. Suc i < length d \<longrightarrow>
         cum_prob (t ! i) = foldl addDouble 0 (map prob (take (Suc i) d))) \<and>
      cum_prob (last t) = 1 \<and>
      (foldl addDouble 0 (map prob d) = 1 \<longrightarrow>
         (\<forall>i < length d. cum_prob (t ! i) = foldl addDouble 0 (map prob (take (Suc i) d))))) \<and>
   (\<forall>parseFloat inp. parseDistribution parseFloat inp = Inr d \<longrightarrow>
      (\<forall>e \<in> set d. 0 \<le> prob e \<and> prob e \<le> 1)) \<and>
   (\<forall>parseFloat inp e. parseDistribution parseFloat inp = Inl e \<longrightarrow>
      (\<exists>line. e \<in> {InvalidFormat line, InvalidNumbers line, ProbabilityOutOfRange line}))"
proof (intro conjI allI impI)
  show "(\<exists>e. createCumulativeTable d name = Inl e) \<longleftrightarrow>
      \<bar>subDouble (foldl addDouble 0 (map prob d)) 1\<bar> > roundDouble (1 / 1000)"
    by (simp add: createCumulativeTable_def totalProb_fold)
  show "e = InvalidDistribution name (foldl addDouble 0 (map prob d))"
    if "createCumulativeTable d name = Inl e" for e
    using that by (simp add: createCumulativeTable_def totalProb_fold split: if_splits)
  show "\<exists>e. createCumulativeTable d name = Inl e" if "d = []"
    using that
    by (simp add: createCumulativeTable_def totalProb_def subDouble_def roundDouble_values)
next
  fix t assume ok: "createCumulativeTable d name = Inr t"
  then have t: "t = pinLast (cumLoop 0 d)" and ne: "d \<noteq> []"
    by (rule createCumulativeTable_Inr)+
  show len: "length t = length d" by (simp add: t)
  show "c_time (t ! i) = d_time (d ! i)" if "i < length d" for i
    using that by (simp add: t nth_pinLast nth_cumLoop)
  show "cum_prob (t ! i) = foldl addDouble 0 (map prob (take (Suc i) d))"
    if "Suc i < length d" for i
    using that by (simp add: t nth_pinLast nth_cumLoop)
  from ne len have "t \<noteq> []" by auto
  with len ne have "last t = t ! (length d - 1)" "length d - 1 < length d" "Suc (length d - 1) = length d"
    by (simp_all add: last_conv_nth)
  then show last1: "cum_prob (last t) = 1"
    by (simp add: t nth_pinLast)
  show "cum_prob (t ! i) = foldl addDouble 0 (map prob (take (Suc i) d))"
    if "foldl addDouble 0 (map prob d) = 1" "i < length d" for i
    using that by (simp add: t nth_pinLast nth_cumLoop)
next
  fix parseFloat inp
  assume "parseDistribution parseFloat inp = Inr d"
  then show "\<forall>e \<in> set d. 0 \<le> prob e \<and> prob e \<le> 1"
    using parseDistribution_probs [of parseFloat inp d] by (simp add: list_all_iff)
next
  fix parseFloat inp e
  assume "parseDistribution parseFloat inp = Inl e"
  then show "\<exists>line. e \<in> {InvalidFormat line, InvalidNumbers line, ProbabilityOutOfRange line}"
    by (rule parseDistribution_error)
qed

theorem createCumulativeTable_spec_witness:
  "createCumulativeTable
     [\<lparr>d_time = 5, prob = roundDouble (3 / 10)\<rparr>, \<lparr>d_time = 10, prob = 1 / 2\<rparr>,
      \<lparr>d_time = 15, prob = roundDouble (2 / 10)\<rparr>] ''Loading Time''
     = Inr [\<lparr>c_time = 5, cum_prob = roundDouble (3 / 10)\<rparr>,
            \<lparr>c_time = 10, cum_prob = roundDouble (8 / 10)\<rparr>, \<lparr>c_time = 15, cum_prob = 1\<rparr>] \<and>
   addDouble (addDouble 0 (roundDouble (3 / 10))) (1 / 2) = roundDouble (8 / 10) \<and>
   (\<exists>e. createCumulativeTable [\<lparr>d_time = 5, prob = roundDouble (95 / 100)\<rparr>] ''Loading Time'' = Inl e) \<and>
   (\<exists>e. createCumulativeTable [] ''Loading Time'' = Inl e)"
proof -
  let ?d = "[\<lparr>d_time = 5, prob = roundDouble (3 / 10)\<rparr>, \<lparr>d_time = 10, prob = 1 / 2\<rparr>,
      \<lparr>d_time = 15, prob = roundDouble (2 / 10)\<rparr>]"
  let ?t = "[\<lparr>c_time = 5, cum_prob = roundDouble (3 / 10)\<rparr>,
            \<lparr>c_time = 10, cum_prob = roundDouble (8 / 10)\<rparr>, \<lparr>c_time = 15, cum_prob = 1\<rparr>]"
  have ok: "createCumulativeTable ?d ''Loading Time'' = Inr ?t"
    unfolding roundDouble_tenths
    by (simp add: createCumulativeTable_def totalProb_def pinLast_def addDouble_def subDouble_def
        roundDouble_def binade.simps roundHalfEven_def Let_def)
  note sums = createCumulativeTable_spec [of ?d "''Loading Time''", THEN conjunct2, THEN conjunct2,
      THEN conjunct2, THEN conjunct1, rule_format, OF ok, THEN conjunct2, THEN conjunct2,
      THEN conjunct1, rule_format, of 1]
  then have 1: "addDouble (addDouble 0 (roundDouble (3 / 10))) (1 / 2) = roundDouble (8 / 10)"
    by simp
  have "\<bar>subDouble (foldl addDouble 0 (map prob [\<lparr>d_time = 5, prob = roundDouble (95 / 100)\<rparr>])) 1\<bar>
          > roundDouble (1 / 1000)"
    unfolding roundDouble_tenths
    by (simp add: addDouble_def subDouble_def roundDouble_def binade.simps roundHalfEven_def Let_def)
  then have 2: "\<exists>e. createCumulativeTable [\<lparr>d_time = 5, prob = roundDouble (95 / 100)\<rparr>] ''Loading Time'' = Inl e"
    by (rule createCumulativeTable_spec [of "[\<lparr>d_time = 5, prob = roundDouble (95 / 100)\<rparr>]"
          "''Loading Time''", THEN conjunct1, THEN iffD2])
  have 3: "\<exists>e. createCumulativeTable [] ''Loading Time'' = Inl e"
    by (rule createCumulativeTable_spec [of "[]" "''Loading Time''", THEN conjunct2, THEN conjunct2,
          THEN conjunct1, rule_format, OF refl])
  from ok 1 2 3 show ?thesis by simp
qed

theorem createCumulativeTable_rounding_counterexample:
  "(\<exists>d. parseDistribution
        (\<lambda>s. if s = ''5'' then Some 5 else if s = ''0.1'' then Some (roundDouble (1 / 10))
              else if s = ''0.099'' then Some (roundDouble (99 / 1000)) else None)
        (concat (replicate 9 (''5, 0.1'' @ [CHR 0x0A])) @ ''5, 0.099'') = Inr d \<and>
     length d = 10 \<and> list_all (\<lambda>e. 0 \<le> prob e) d \<and>
     \<bar>sum_list (map prob d) - 1\<bar> < 1 / 1000 \<and>
     createCumulativeTable d ''Loading Time''
       = Inl (InvalidDistribution ''Loading Time'' (4499096027743125 / 4503599627370496))) \<and>
   parseDistribution (\<lambda>s. if s = ''5'' then Some 5 else if s = ''-0.5'' then Some (- 1 / 2) else None)
     ''5, -0.5'' = Inl (ProbabilityOutOfRange ''5, -0.5'')"
proof -
  let ?d = "replicate 9 \<lparr>d_time = 5, prob = 3602879701896397 / 36028797018963968\<rparr> @
          [\<lparr>d_time = 5, prob = 3566850904877433 / 36028797018963968\<rparr>]"
  have "parseDistribution
        (\<lambda>s. if s = ''5'' then Some 5 else if s = ''0.1'' then Some (roundDouble (1 / 10))
              else if s = ''0.099'' then Some (roundDouble (99 / 1000)) else None)
        (concat (replicate 9 (''5, 0.1'' @ [CHR 0x0A])) @ ''5, 0.099'') = Inr ?d"
    unfolding roundDouble_tenths
    by (simp add: parseDistribution_def parseLine_def trim_def whiteSpace_def matchLen_def
        stripLeading.simps Let_def eval_nat_numeral)
  moreover have "createCumulativeTable ?d ''Loading Time''
       = Inl (InvalidDistribution ''Loading Time'' (4499096027743125 / 4503599627370496))"
    by (simp add: createCumulativeTable_def totalProb_def addDouble_def subDouble_def
        roundDouble_def binade.simps roundHalfEven_def Let_def eval_nat_numeral)
  moreover have "length ?d = 10" "list_all (\<lambda>e. 0 \<le> prob e) ?d"
    "\<bar>sum_list (map prob ?d) - 1\<bar> < 1 / 1000"
    by (simp_all add: eval_nat_numeral)
  ultimately have "\<exists>d. parseDistribution
        (\<lambda>s. if s = ''5'' then Some 5 else if s = ''0.1'' then Some (roundDouble (1 / 10))
              else if s = ''0.099'' then Some (roundDouble (99 / 1000)) else None)
        (concat (replicate 9 (''5, 0.1'' @ [CHR 0x0A])) @ ''5, 0.099'') = Inr d \<and>
     length d = 10 \<and> list_all (\<lambda>e. 0 \<le> prob e) d \<and>
     \<bar>sum_list (map prob d) - 1\<bar> < 1 / 1000 \<and>
     createCumulativeTable d ''Loading Time''
       = Inl (InvalidDistribution ''Loading Time'' (4499096027743125 / 4503599627370496))"
    by blast
  moreover have "parseDistribution
     (\<lambda>s. if s = ''5'' then Some 5 else if s = ''-0.5'' then Some (- 1 / 2) else None)
     ''5, -0.5'' = Inl (ProbabilityOutOfRange ''5, -0.5'')"
    by (simp add: parseDistribution_def parseLine_def trim_def whiteSpace_def matchLen_def
        stripLeading.simps Let_def)
  ultimately show ?thesis by (rule conjI)
qed

section \<open>The horizon check\<close>

text \<open>\<^verbatim>\<open>addEvent\<close> sorts the whole event list and the loop removes its first element, so the
  list is sorted by time whenever the loop looks at it: the event that the loop takes is an
  earliest pending one.\<close>

lemma dispatch_FEL_sorted:
  assumes "dispatch ev s = Inr s'" "sorted (map time (FEL s))"
  shows "sorted (map time (FEL s'))"
proof (cases "etype ev")
  case ALQ
  with assms(1) have "handleALQ ev s = Inr s'" by (simp add: dispatch_def)
  then show ?thesis using assms(2) by (cases rule: handleALQ_cases) auto
next
  case EL
  with assms(1) have "handleEL ev s = Inr s'" by (simp add: dispatch_def)
  then show ?thesis using assms(2) by (cases rule: handleEL_cases) auto
next
  case EW
  with assms(1) have "handleEW ev s = Inr s'" by (simp add: dispatch_def)
  then show ?thesis using assms(2) by (cases rule: handleEW_cases) auto
qed

lemma reachable_FEL_sorted:
  assumes "reachable s0 s lastEventTime" "FEL s0 = []"
  shows "sorted (map time (FEL s))"
  using assms(1)
proof (rule reachable_invariant)
  from assms(2) show "sorted (map time (FEL s0))" by simp
  show "sorted (map time (FEL s2))" if "initLoader tid s1 = Inr s2" "sorted (map time (FEL s1))" for tid s1 s2
    using that by (cases rule: initLoader_cases) auto
  show "sorted (map time (FEL s2))" if "initScale tid s1 = Inr s2" "sorted (map time (FEL s1))" for tid s1 s2
    using that by (cases rule: initScale_cases) auto
  show "sorted (map time (FEL (addEvent ev s1)))" for ev s1
    by (simp add: addEvent_def)
  show "sorted (map time (FEL ((accumulate d (s1\<lparr>FEL := rest\<rparr>))\<lparr>clock := time ev\<rparr>)))"
    if "FEL s1 = ev # rest" "sorted (map time (FEL s1))" for ev :: event and rest s1 d
    using that by (simp add: accumulate_def)
  show "sorted (map time (FEL s2))" if "dispatch ev s1 = Inr s2" "sorted (map time (FEL s1))" for ev s1 s2
    using that by (rule dispatch_FEL_sorted)
qed

lemma reachable_head_earliest:
  assumes "newSimulation nTrucks nLoaders nScales maxTime tables random = Inr s0"
    and "reachable s0 s lastEventTime" and "FEL s = ev # rest"
  shows "\<forall>e \<in> set (FEL s). time ev \<le> time e"
proof -
  from assms(1) have "FEL s0 = []" by (auto simp: newSimulation_def split: if_splits)
  with assms(2) have "sorted (map time (FEL s))" by (rule reachable_FEL_sorted)
  with assms(3) show ?thesis by auto
qed

text \<open>
  C4 (horizon check). When the earliest pending event lies beyond the horizon, the round of
  the loop removes it from the event list, sets the clock to the horizon and leaves the loop
  (for any positive fuel the loop returns). The handler does not run: counters, queues, truck
  states, both integrals, the number of consumed draws and the variable \<open>lastEventTime\<close> are
  unchanged, and no event is added.
\<close>

theorem horizon_stop:
  assumes "FEL s = ev # rest" and "time ev > maxSimTime s"
  shows "\<exists>s'. loopStep s lastEventTime = Exit s' lastEventTime \<and>
           runLoop (Suc fuel) s lastEventTime = Some (Inr (s', lastEventTime)) \<and>
           s' = s\<lparr>FEL := rest, clock := maxSimTime s\<rparr> \<and>
           clock s' = maxSimTime s \<and> FEL s' = rest \<and>
           L s' = L s \<and> W s' = W s \<and> LQ s' = LQ s \<and> WQ s' = WQ s \<and>
           loaderQueue s' = loaderQueue s \<and> weigherQueue s' = weigherQueue s \<and>
           trucks s' = trucks s \<and> draws s' = draws s \<and>
           loaderBusyTime s' = loaderBusyTime s \<and> scaleBusyTime s' = scaleBusyTime s"
  using assms by (simp add: loopStep_def)

theorem horizon_stop_witness:
  "\<exists>s0 s1 s2 ev rest. newSimulation 6 2 1 3 CUM_PROBS (\<lambda>_. 1 / 2) = Inr s0 \<and> init s0 = Inr s1 \<and>
     FEL s1 = ev # rest \<and> time ev = 10 \<and> maxSimTime s1 = 3 \<and>
     runLoop 1 s1 0 = Some (Inr (s2, 0)) \<and> clock s2 = 3 \<and> FEL s2 = rest \<and> length rest = 2 \<and>
     L s2 = 2 \<and> loaderBusyTime s2 = 0 \<and> trucks s2 = trucks s1"
proof -
  have "\<exists>s0 s1 ev rest. newSimulation 6 2 1 3 CUM_PROBS (\<lambda>_. 1 / 2) = Inr s0 \<and> init s0 = Inr s1 \<and>
     FEL s1 = ev # rest \<and> time ev = 10 \<and> maxSimTime s1 = 3 \<and> length rest = 2 \<and> L s1 = 2 \<and>
     loaderBusyTime s1 = 0"
    by (simp add: engine_defs upt_rec)
  then obtain s0 s1 ev rest where 0: "newSimulation 6 2 1 3 CUM_PROBS (\<lambda>_. 1 / 2) = Inr s0"
    "init s0 = Inr s1" and 1: "FEL s1 = ev # rest" and 2: "time ev = 10" "maxSimTime s1 = 3"
    and 3: "length rest = 2" "L s1 = 2" "loaderBusyTime s1 = 0"
    by blast
  from 2 have "time ev > maxSimTime s1" by simp
  from horizon_stop [OF 1 this, of 0 0] obtain s2 where
    "runLoop (Suc 0) s1 0 = Some (Inr (s2, 0))" "clock s2 = maxSimTime s1" "FEL s2 = rest"
    "L s2 = L s1" "loaderBusyTime s2 = loaderBusyTime s1" "trucks s2 = trucks s1"
    by blast
  with 0 1 2 3 show ?thesis by (intro exI [of _ s0] exI [of _ s1] exI [of _ s2] exI [of _ ev] exI [of _ rest]) simp
qed

section \<open>The hand-off inside the handler of EL\<close>

lemma nth_withState:
  "1 \<le> tid \<Longrightarrow> tid \<le> int (length ts) \<Longrightarrow> tstate (withState tid st ts ! nat (tid - 1)) = st"
  by (simp add: withState_def)

text \<open>The hand-off inside \<open>handleEL\<close>, for any state in which the queue counter is positive,
  the queue list has a head, the two truck identifiers are in range and the tables are not
  empty.\<close>

lemma handleEL_handoff_local:
  assumes "LQ s > 0" and "loaderQueue s = q # qs"
    and "validId s (truckId ev)" and "validId s q"
    and "weighing (cumProbs s) \<noteq> []" and "loading (cumProbs s) \<noteq> []"
  shows "\<exists>s' k tl. handleEL ev s = Inr s' \<and>
           loaderQueue s' = qs \<and> LQ s' = LQ s - 1 \<and> L s' = L s \<and>
           tstate (trucks s' ! nat (q - 1)) = LOADING \<and>
           draws s \<le> k \<and> draws s' = Suc k \<and>
           sampleTable (rng s k) (loading (cumProbs s)) = Inr tl \<and>
           \<lparr>time = clock s + tl, etype = EL, truckId = q\<rparr> \<in> set (FEL s') \<and>
           (\<forall>e \<in> set (FEL s'). e \<in> set (FEL s) \<or> e = \<lparr>time = clock s + tl, etype = EL, truckId = q\<rparr>
               \<or> (W s < numScales s \<and> etype e = EW \<and> truckId e = truckId ev))"
proof -
  from assms(3,4) have ids: "1 \<le> truckId ev" "truckId ev \<le> int (length (trucks s))"
    "1 \<le> q" "q \<le> int (length (trucks s))"
    by (simp_all add: validId_def)
  show ?thesis
  proof (cases "W s < numScales s")
    case True
    from assms(5) obtain tw where tw: "sampleTable (rng s (draws s)) (weighing (cumProbs s)) = Inr tw"
      using sampleTable_ok by blast
    from assms(6) obtain tl where tl: "sampleTable (rng s (Suc (draws s))) (loading (cumProbs s)) = Inr tl"
      using sampleTable_ok by blast
    let ?s' = "s\<lparr>FEL := sort_key time
                 (sort_key time (FEL s @ [\<lparr>time = clock s + tw, etype = EW, truckId = truckId ev\<rparr>])
                  @ [\<lparr>time = clock s + tl, etype = EL, truckId = q\<rparr>]),
               LQ := LQ s - 1, W := W s + 1, loaderQueue := qs,
               trucks := withState q LOADING (withState (truckId ev) WEIGHING (trucks s)),
               draws := Suc (Suc (draws s))\<rparr>"
    from True assms(1,2) ids tw tl have "handleEL ev s = Inr ?s'"
      by (simp add: handleEL_def setTruckState_def startWeighing_def serveLoaderQueue_def
          getRandomTime_def addEvent_def)
    moreover from ids have "tstate (trucks ?s' ! nat (q - 1)) = LOADING"
      by (simp add: nth_withState)
    ultimately show ?thesis
      using True tl by (intro exI [of _ ?s'] exI [of _ "Suc (draws s)"] exI [of _ tl]) auto
  next
    case False
    from assms(6) obtain tl where tl: "sampleTable (rng s (draws s)) (loading (cumProbs s)) = Inr tl"
      using sampleTable_ok by blast
    let ?s' = "s\<lparr>FEL := sort_key time (FEL s @ [\<lparr>time = clock s + tl, etype = EL, truckId = q\<rparr>]),
               LQ := LQ s - 1, WQ := WQ s + 1, loaderQueue := qs,
               weigherQueue := weigherQueue s @ [truckId ev],
               trucks := withState q LOADING (withState (truckId ev) IN_WQ (trucks s)),
               draws := Suc (draws s)\<rparr>"
    from False assms(1,2) ids tl have "handleEL ev s = Inr ?s'"
      by (simp add: handleEL_def setTruckState_def serveLoaderQueue_def
          getRandomTime_def addEvent_def)
    moreover from ids have "tstate (trucks ?s' ! nat (q - 1)) = LOADING"
      by (simp add: nth_withState)
    ultimately show ?thesis
      using False tl by (intro exI [of _ ?s'] exI [of _ "draws s"] exI [of _ tl]) auto
  qed
qed

section \<open>The order of the processed events\<close>

lemma sample_tableTimes:
  assumes "tableTimes P cps" "sampleTable r (ty cps) = Inr t" "ty = loading \<or> ty = weighing \<or> ty = travel"
  shows "P t"
proof -
  from assms(2) have "t \<in> c_time ` set (ty cps)" by (rule sampleTable_in_table)
  with assms(1,3) show ?thesis by (auto simp: tableTimes_def list_all_iff)
qed

lemma futureOrdered_add:
  assumes "futureOrdered s" "clock s \<le> time ev"
  shows "futureOrdered (s\<lparr>FEL := sort_key time (FEL s @ [ev])\<rparr>)"
  using assms by (auto simp: futureOrdered_def list_all_iff)

lemma futureOrdered_cong:
  "FEL s' = FEL s \<Longrightarrow> clock s' = clock s \<Longrightarrow> futureOrdered s' = futureOrdered s"
  by (simp add: futureOrdered_def)

lemma futureOrdered_add2:
  assumes "futureOrdered s" "clock s \<le> time ev" "clock s \<le> time ev'"
  shows "futureOrdered (s\<lparr>FEL := sort_key time (sort_key time (FEL s @ [ev]) @ [ev'])\<rparr>)"
  using assms by (auto simp: futureOrdered_def list_all_iff)

lemma futureOrderedI:
  "futureOrdered (s\<lparr>FEL := fel\<rparr>) \<Longrightarrow> FEL s' = fel \<Longrightarrow> clock s' = clock s \<Longrightarrow> futureOrdered s'"
  by (simp add: futureOrdered_def)

lemma handleALQ_futureOrdered:
  assumes "handleALQ ev s = Inr s'" "futureOrdered s" "tableTimes ((\<le>) 0) (cumProbs s)"
  shows "futureOrdered s'"
  using assms(1)
proof (cases rule: handleALQ_cases)
  case (load t)
  from assms(3) load(4) have "0 \<le> t" by (rule sample_tableTimes) simp
  with assms(2) have "futureOrdered (s\<lparr>FEL := sort_key time (FEL s @ [\<lparr>time = clock s + t, etype = EL, truckId = truckId ev\<rparr>])\<rparr>)"
    by (intro futureOrdered_add) simp_all
  then show ?thesis by (rule futureOrderedI) (simp_all add: load(5))
next
  case queue
  with assms(2) show ?thesis by (simp add: futureOrdered_def)
qed

lemma handleEL_futureOrdered:
  assumes "handleEL ev s = Inr s'" "futureOrdered s" "tableTimes ((\<le>) 0) (cumProbs s)"
  shows "futureOrdered s'"
  using assms(1)
proof (cases rule: handleEL_cases)
  case (weigh_idle tw)
  from assms(3) weigh_idle(5) have "0 \<le> tw" by (rule sample_tableTimes) simp
  with assms(2) have "futureOrdered (s\<lparr>FEL := sort_key time (FEL s @ [\<lparr>time = clock s + tw, etype = EW, truckId = truckId ev\<rparr>])\<rparr>)"
    by (intro futureOrdered_add) simp_all
  then show ?thesis by (rule futureOrderedI) (simp_all add: weigh_idle(6))
next
  case (weigh_handoff tw q qs tl)
  from assms(3) weigh_handoff(8) have "0 \<le> tw" by (rule sample_tableTimes) simp
  moreover from assms(3) weigh_handoff(9) have "0 \<le> tl" by (rule sample_tableTimes) simp
  ultimately have "futureOrdered (s\<lparr>FEL := sort_key time
       (sort_key time (FEL s @ [\<lparr>time = clock s + tw, etype = EW, truckId = truckId ev\<rparr>])
          @ [\<lparr>time = clock s + tl, etype = EL, truckId = q\<rparr>])\<rparr>)"
    using assms(2) by (intro futureOrdered_add2) simp_all
  then show ?thesis by (rule futureOrderedI) (simp_all add: weigh_handoff(10))
next
  case queue_idle
  with assms(2) show ?thesis by (simp add: futureOrdered_def)
next
  case (queue_handoff q qs tl)
  from assms(3) queue_handoff(8) have "0 \<le> tl" by (rule sample_tableTimes) simp
  with assms(2) have "futureOrdered (s\<lparr>FEL := sort_key time (FEL s @ [\<lparr>time = clock s + tl, etype = EL, truckId = q\<rparr>])\<rparr>)"
    by (intro futureOrdered_add) simp_all
  then show ?thesis by (rule futureOrderedI) (simp_all add: queue_handoff(9))
qed

lemma handleEW_futureOrdered:
  assumes "handleEW ev s = Inr s'" "futureOrdered s" "tableTimes ((\<le>) 0) (cumProbs s)"
  shows "futureOrdered s'"
  using assms(1)
proof (cases rule: handleEW_cases)
  case (idle tt)
  from assms(3) idle(4) have "0 \<le> tt" by (rule sample_tableTimes) simp
  with assms(2) have "futureOrdered (s\<lparr>FEL := sort_key time (FEL s @ [\<lparr>time = clock s + tt, etype = ALQ, truckId = truckId ev\<rparr>])\<rparr>)"
    by (intro futureOrdered_add) simp_all
  then show ?thesis by (rule futureOrderedI) (simp_all add: idle(5))
next
  case (handoff tt q qs tw)
  from assms(3) handoff(7) have "0 \<le> tt" by (rule sample_tableTimes) simp
  moreover from assms(3) handoff(8) have "0 \<le> tw" by (rule sample_tableTimes) simp
  ultimately have "futureOrdered (s\<lparr>FEL := sort_key time
       (sort_key time (FEL s @ [\<lparr>time = clock s + tt, etype = ALQ, truckId = truckId ev\<rparr>])
          @ [\<lparr>time = clock s + tw, etype = EW, truckId = q\<rparr>])\<rparr>)"
    using assms(2) by (intro futureOrdered_add2) simp_all
  then show ?thesis by (rule futureOrderedI) (simp_all add: handoff(9))
qed

lemma dispatch_futureOrdered:
  "dispatch ev s = Inr s' \<Longrightarrow> futureOrdered s \<Longrightarrow> tableTimes ((\<le>) 0) (cumProbs s) \<Longrightarrow> futureOrdered s'"
  by (cases "etype ev")
    (auto simp: dispatch_def intro: handleALQ_futureOrdered handleEL_futureOrdered handleEW_futureOrdered)

lemma loopStep_futureOrdered:
  assumes "loopStep s lastEventTime = Next s' last'" "futureOrdered s" "tableTimes ((\<le>) 0) (cumProbs s)"
  shows "futureOrdered s'" "clock s \<le> last'" "clock s' = last'" "cumProbs s' = cumProbs s"
proof -
  from assms(1) obtain ev rest where fel: "FEL s = ev # rest" and last': "last' = time ev"
    and d: "dispatch ev ((accumulate (time ev - lastEventTime) (s\<lparr>FEL := rest\<rparr>))\<lparr>clock := time ev\<rparr>) = Inr s'"
    by (rule loopStep_Next)
  let ?mid = "(accumulate (time ev - lastEventTime) (s\<lparr>FEL := rest\<rparr>))\<lparr>clock := time ev\<rparr>"
  from assms(2) fel have "futureOrdered ?mid"
    by (auto simp: futureOrdered_def accumulate_def list_all_iff)
  moreover from assms(3) have "tableTimes ((\<le>) 0) (cumProbs ?mid)"
    by (simp add: accumulate_def)
  ultimately show "futureOrdered s'" by (rule dispatch_futureOrdered [OF d])
  from assms(2) fel last' show "clock s \<le> last'" by (simp add: futureOrdered_def)
  from dispatch_frame [OF d] last' show "clock s' = last'" "cumProbs s' = cumProbs s"
    by (simp_all add: frame_def sameConfig_def accumulate_def)
qed

lemma processedTimes_sorted:
  assumes "futureOrdered s" "tableTimes ((\<le>) 0) (cumProbs s)"
  shows "sorted (processedTimes n s lastEventTime) \<and>
         (\<forall>t \<in> set (processedTimes n s lastEventTime). clock s \<le> t)"
  using assms
proof (induction n arbitrary: s lastEventTime)
  case 0
  then show ?case by simp
next
  case (Suc n)
  show ?case
  proof (cases "loopStep s lastEventTime")
    case (Next s' last')
    from loopStep_futureOrdered [OF Next Suc.prems]
    have 1: "futureOrdered s'" "clock s \<le> last'" "clock s' = last'" "tableTimes ((\<le>) 0) (cumProbs s')"
      using Suc.prems(2) by simp_all
    from Suc.IH [OF 1(1,4), of last']
    have "sorted (processedTimes n s' last')" "\<forall>t \<in> set (processedTimes n s' last'). last' \<le> t"
      using 1(3) by simp_all
    with Next 1(2) show ?thesis by auto
  qed simp_all
qed

lemma init_futureOrdered:
  assumes "init s = Inr s'" "FEL s = []" "clock s = 0" "tableTimes ((\<le>) 0) (cumProbs s)"
  shows "futureOrdered s' \<and> clock s' = 0 \<and> tableTimes ((\<le>) 0) (cumProbs s')"
  using assms(1)
proof (rule init_induct)
  let ?P = "\<lambda>s. futureOrdered s \<and> clock s = 0 \<and> tableTimes ((\<le>) 0) (cumProbs s)"
  show "?P s" using assms(2,3,4) by (simp add: futureOrdered_def)
  show "?P s2" if "initLoader tid s1 = Inr s2" "?P s1" for tid s1 s2
    using that(1)
  proof (cases rule: initLoader_cases)
    case (load t)
    from that(2) load(4) have "0 \<le> t" by (intro sample_tableTimes [of "(\<le>) 0" "cumProbs s1" _ loading]) simp_all
    with that(2) have "futureOrdered (s1\<lparr>FEL := sort_key time (FEL s1 @ [\<lparr>time = clock s1 + t, etype = EL, truckId = tid\<rparr>])\<rparr>)"
      by (intro futureOrdered_add) simp_all
    then have "futureOrdered s2" by (rule futureOrderedI) (simp_all add: load(5))
    with that(2) load(5) show ?thesis by simp
  next
    case queue
    with that(2) show ?thesis by (auto simp: futureOrdered_def)
  qed
  show "?P s2" if "initScale tid s1 = Inr s2" "?P s1" for tid s1 s2
    using that(1)
  proof (cases rule: initScale_cases)
    case (weigh t)
    from that(2) weigh(4) have "0 \<le> t" by (intro sample_tableTimes [of "(\<le>) 0" "cumProbs s1" _ weighing]) simp_all
    with that(2) have "futureOrdered (s1\<lparr>FEL := sort_key time (FEL s1 @ [\<lparr>time = clock s1 + t, etype = EW, truckId = tid\<rparr>])\<rparr>)"
      by (intro futureOrdered_add) simp_all
    then have "futureOrdered s2" by (rule futureOrderedI) (simp_all add: weigh(5))
    with that(2) weigh(5) show ?thesis by simp
  next
    case queue
    with that(2) show ?thesis by (auto simp: futureOrdered_def)
  qed
  show "?P (addEvent ev s1)" if "time ev = 0" "?P s1" for ev s1
  proof -
    from that have "futureOrdered (s1\<lparr>FEL := sort_key time (FEL s1 @ [ev])\<rparr>)"
      by (intro futureOrdered_add) simp_all
    with that(2) show ?thesis by (simp add: addEvent_def futureOrdered_def)
  qed
qed

text \<open>
  C9 (monotonic clock), as the code has it. When none of the three tables holds a negative
  time, the times of the events that the main loop processes, in the order of processing,
  are non-decreasing (and none is negative); in every reachable state a processed event
  moves the clock forward or leaves it where it is.
\<close>

theorem monotonic_clock:
  assumes "newSimulation nTrucks nLoaders nScales maxTime cps random = Inr s0"
    and "tableTimes ((\<le>) 0) cps"
    and "init s0 = Inr s1"
  shows "sorted (processedTimes fuel s1 0) \<and> (\<forall>t \<in> set (processedTimes fuel s1 0). 0 \<le> t) \<and>
         (\<forall>s lastEventTime s' last'. reachable s0 s lastEventTime \<longrightarrow>
            loopStep s lastEventTime = Next s' last' \<longrightarrow> clock s \<le> clock s' \<and> clock s' = last')"
proof -
  from newSimulation_Inr(2) [OF assms(1)] assms(2)
  have 0: "FEL s0 = []" "clock s0 = 0" "tableTimes ((\<le>) 0) (cumProbs s0)"
    by simp_all
  from init_futureOrdered [OF assms(3) 0]
  have 1: "futureOrdered s1" "clock s1 = 0" "tableTimes ((\<le>) 0) (cumProbs s1)"
    by simp_all
  from processedTimes_sorted [OF 1(1,3), of fuel 0] 1(2)
  have "sorted (processedTimes fuel s1 0)" "\<forall>t \<in> set (processedTimes fuel s1 0). 0 \<le> t"
    by simp_all
  moreover have "clock s \<le> clock s' \<and> clock s' = last'"
    if r: "reachable s0 s lastEventTime" and n: "loopStep s lastEventTime = Next s' last'"
    for s lastEventTime s' last'
  proof -
    from r have "futureOrdered s \<and> tableTimes ((\<le>) 0) (cumProbs s)"
    proof (induction rule: reachable.induct)
      case (after_init s)
      from init_futureOrdered [OF this 0] show ?case by simp
    next
      case (after_event s lastEventTime s' last')
      from loopStep_futureOrdered [OF after_event.hyps(2)] after_event.IH show ?case by simp
    qed
    with loopStep_futureOrdered [OF n] show ?thesis by simp
  qed
  ultimately show ?thesis by blast
qed

theorem monotonic_clock_witness:
  "\<exists>s0 s1. newSimulation 2 1 1 100 CUM_PROBS (\<lambda>_. 1 / 2) = Inr s0 \<and> init s0 = Inr s1 \<and>
     processedTimes 3 s1 0 = [0, 0, 10] \<and> sorted (processedTimes 3 s1 0)"
proof -
  have "\<exists>s0 s1. newSimulation 2 1 1 100 CUM_PROBS (\<lambda>_. 1 / 2) = Inr s0 \<and> init s0 = Inr s1 \<and>
     processedTimes (Suc (Suc (Suc 0))) s1 0 = [0, 0, 10]"
    by (simp add: engine_defs upto.simps upt_rec)
  then obtain s0 s1 where 0: "newSimulation 2 1 1 100 CUM_PROBS (\<lambda>_. 1 / 2) = Inr s0"
    and 1: "init s0 = Inr s1" and 2: "processedTimes 3 s1 0 = [0, 0, 10]"
    by (auto simp: eval_nat_numeral)
  have "tableTimes ((\<le>) 0) CUM_PROBS" by (simp add: tableTimes_def CUM_PROBS_def)
  from monotonic_clock [OF 0 this 1, of 3] have "sorted (processedTimes 3 s1 0)" by simp
  with 0 1 2 show ?thesis by blast
qed

theorem monotonic_clock_counterexample:
  "\<exists>s0 s1. createCumulativeTable [\<lparr>d_time = - 5, prob = 1\<rparr>] ''Loading Time''
        = Inr [\<lparr>c_time = - 5, cum_prob = 1\<rparr>] \<and>
     newSimulation 1 1 1 100
       \<lparr>loading = [\<lparr>c_time = - 5, cum_prob = 1\<rparr>], weighing = [\<lparr>c_time = 12, cum_prob = 1\<rparr>],
        travel = [\<lparr>c_time = 40, cum_prob = 1\<rparr>]\<rparr> (\<lambda>_. 1 / 2) = Inr s0 \<and>
     init s0 = Inr s1 \<and> processedTimes 2 s1 0 = [0, - 5] \<and> \<not> sorted (processedTimes 2 s1 0)"
proof -
  have "\<exists>s0 s1. createCumulativeTable [\<lparr>d_time = - 5, prob = 1\<rparr>] ''Loading Time''
        = Inr [\<lparr>c_time = - 5, cum_prob = 1\<rparr>] \<and>
     newSimulation 1 1 1 100
       \<lparr>loading = [\<lparr>c_time = - 5, cum_prob = 1\<rparr>], weighing = [\<lparr>c_time = 12, cum_prob = 1\<rparr>],
        travel = [\<lparr>c_time = 40, cum_prob = 1\<rparr>]\<rparr> (\<lambda>_. 1 / 2) = Inr s0 \<and>
     init s0 = Inr s1 \<and> processedTimes (Suc (Suc 0)) s1 0 = [0, - 5]"
    by (simp add: engine_defs upto.simps upt_rec createCumulativeTable_single)
  then show ?thesis by (auto simp: eval_nat_numeral)
qed

section \<open>Conservation of the trucks\<close>

lemma tstate_withState:
  "1 \<le> tid \<Longrightarrow> i < length ts \<Longrightarrow>
     tstate (withState tid st ts ! i) = (if int i + 1 = tid then st else tstate (ts ! i))"
  by (auto simp: withState_def nth_list_update)

lemma truck_id_withState [simp]: "map truck_id (withState tid st ts) = map truck_id ts"
  by (cases "nat (tid - 1) < length ts")
     (simp_all add: withState_def map_update list_update_same_conv list_update_beyond not_less)

lemma idleShrinks_trans:
  "idleShrinks X s s1 \<Longrightarrow> idleShrinks Y s1 s2 \<Longrightarrow> idleShrinks (X \<union> Y) s s2"
  by (auto simp: idleShrinks_def)

lemma idleShrinks_refl: "idleShrinks {} s s"
  by (simp add: idleShrinks_def)

lemma handleALQ_idleShrinks: "handleALQ ev s = Inr s' \<Longrightarrow> idleShrinks {truckId ev} s s'"
  by (erule handleALQ_cases) (auto simp: idleShrinks_def tstate_withState split: if_splits)

lemma handleEL_idleShrinks: "handleEL ev s = Inr s' \<Longrightarrow> idleShrinks {truckId ev} s s'"
  by (erule handleEL_cases) (auto simp: idleShrinks_def tstate_withState split: if_splits)

lemma handleEW_idleShrinks: "handleEW ev s = Inr s' \<Longrightarrow> idleShrinks {truckId ev} s s'"
  by (erule handleEW_cases) (auto simp: idleShrinks_def tstate_withState split: if_splits)

lemma dispatch_idleShrinks: "dispatch ev s = Inr s' \<Longrightarrow> idleShrinks {truckId ev} s s'"
  by (cases "etype ev")
    (auto simp: dispatch_def intro: handleALQ_idleShrinks handleEL_idleShrinks handleEW_idleShrinks)

lemma handleALQ_FEL: "handleALQ ev s = Inr s' \<Longrightarrow> set (FEL s) \<subseteq> set (FEL s')"
  by (erule handleALQ_cases) auto

lemma handleEL_FEL: "handleEL ev s = Inr s' \<Longrightarrow> set (FEL s) \<subseteq> set (FEL s')"
  by (erule handleEL_cases) auto

lemma handleEW_FEL: "handleEW ev s = Inr s' \<Longrightarrow> set (FEL s) \<subseteq> set (FEL s')"
  by (erule handleEW_cases) auto

lemma dispatch_FEL: "dispatch ev s = Inr s' \<Longrightarrow> set (FEL s) \<subseteq> set (FEL s')"
  by (cases "etype ev") (auto simp: dispatch_def dest: handleALQ_FEL handleEL_FEL handleEW_FEL)

lemma loopStep_idleShrinks:
  assumes "loopStep s lastEventTime = Next s' last'"
  shows "idleShrinks {} s s'"
proof -
  from assms obtain ev rest where
    d: "dispatch ev ((accumulate (time ev - lastEventTime) (s\<lparr>FEL := rest\<rparr>))\<lparr>clock := time ev\<rparr>) = Inr s'"
    by (rule loopStep_Next)
  from dispatch_idleShrinks [OF d] show ?thesis
    by (simp add: idleShrinks_def accumulate_def)
qed

lemma loopStep_idlePending:
  assumes "loopStep s lastEventTime = Next s' last'" "idlePending s"
  shows "idlePending s'"
proof -
  from assms(1) obtain ev rest where fel: "FEL s = ev # rest" and
    d: "dispatch ev ((accumulate (time ev - lastEventTime) (s\<lparr>FEL := rest\<rparr>))\<lparr>clock := time ev\<rparr>) = Inr s'"
    by (rule loopStep_Next)
  let ?mid = "(accumulate (time ev - lastEventTime) (s\<lparr>FEL := rest\<rparr>))\<lparr>clock := time ev\<rparr>"
  from dispatch_idleShrinks [OF d] have sh: "idleShrinks {truckId ev} ?mid s'" .
  from dispatch_FEL [OF d] have sub: "set rest \<subseteq> set (FEL s')" by (simp add: accumulate_def)
  show ?thesis
    unfolding idlePending_def
  proof (intro allI impI)
    fix i assume i: "i < length (trucks s')" and idle: "tstate (trucks s' ! i) = IDLE"
    from sh i have i': "i < length (trucks s)" by (simp add: idleShrinks_def accumulate_def)
    with sh idle have "tstate (trucks s ! i) = IDLE" and ne: "int i + 1 \<noteq> truckId ev"
      by (simp_all add: idleShrinks_def accumulate_def)
    with assms(2) i' fel have "\<lparr>time = 0, etype = ALQ, truckId = int i + 1\<rparr> \<in> set (ev # rest)"
      by (simp add: idlePending_def)
    with ne have "\<lparr>time = 0, etype = ALQ, truckId = int i + 1\<rparr> \<in> set rest" by auto
    with sub show "\<lparr>time = 0, etype = ALQ, truckId = int i + 1\<rparr> \<in> set (FEL s')" by blast
  qed
qed

lemma initArrivals_FEL:
  "set (FEL (initArrivals is s)) = set (FEL s) \<union> (\<lambda>i. \<lparr>time = 0, etype = ALQ, truckId = i\<rparr>) ` set is"
  by (induction "is" arbitrary: s) (auto simp: addEvent_def)

lemma initArrivals_trucks [simp]: "trucks (initArrivals is s) = trucks s"
  by (induction "is" arbitrary: s) (simp_all add: addEvent_def)

lemma initLoader_idleShrinks: "initLoader tid s = Inr s' \<Longrightarrow> idleShrinks {tid} s s'"
  by (erule initLoader_cases) (auto simp: idleShrinks_def tstate_withState split: if_splits)

lemma initScale_idleShrinks: "initScale tid s = Inr s' \<Longrightarrow> idleShrinks {tid} s s'"
  by (erule initScale_cases) (auto simp: idleShrinks_def tstate_withState split: if_splits)

lemma initLoaders_idleShrinks: "initLoaders tids s = Inr s' \<Longrightarrow> idleShrinks (set tids) s s'"
proof (induction tids arbitrary: s)
  case Nil
  then show ?case by (simp add: idleShrinks_refl)
next
  case (Cons tid tids)
  from Cons.prems obtain s1 where 1: "initLoader tid s = Inr s1" and 2: "initLoaders tids s1 = Inr s'"
    by (auto simp: bindE_Inr_iff)
  from initLoader_idleShrinks [OF 1] Cons.IH [OF 2]
  have "idleShrinks ({tid} \<union> set tids) s s'" by (rule idleShrinks_trans)
  then show ?case by simp
qed

lemma inPhases_total: "inPhases activePhases s + inPhases [IDLE] s = length (trucks s)"
proof -
  have "tstate t \<in> set [IDLE] \<longleftrightarrow> \<not> tstate t \<in> set activePhases" for t :: truck
    by (cases "tstate t") (simp_all add: activePhases_def)
  then have "inPhases [IDLE] s = length (filter (\<lambda>t. \<not> tstate t \<in> set activePhases) (trucks s))"
    by (simp add: inPhases_def)
  then show ?thesis
    by (simp add: inPhases_def sum_length_filter_compl)
qed

lemma inPhases_no_idle:
  assumes "\<forall>i < length (trucks s). tstate (trucks s ! i) \<noteq> IDLE"
  shows "inPhases activePhases s = length (trucks s)"
proof -
  from assms have "\<forall>t \<in> set (trucks s). tstate t \<noteq> IDLE"
    by (auto simp: in_set_conv_nth)
  then have "filter (\<lambda>t. tstate t \<in> set [IDLE]) (trucks s) = []"
    by (simp add: filter_empty_conv)
  then have "inPhases [IDLE] s = 0" by (simp add: inPhases_def)
  with inPhases_total [of s] show ?thesis by simp
qed

text \<open>What \<open>init\<close> establishes for the trucks.\<close>

lemma init_trucks:
  assumes "newSimulation nTrucks nLoaders nScales maxTime cps random = Inr s0" "init s0 = Inr s1"
  shows "map truck_id (trucks s1) = map (\<lambda>i. int i + 1) [0 ..< nat nTrucks] \<and> idlePending s1 \<and>
    (nTrucks = 6 \<and> nLoaders = 2 \<and> nScales = 1 \<longrightarrow>
       (\<forall>i < length (trucks s1). tstate (trucks s1 ! i) \<noteq> IDLE))"
proof -
  note s0 = newSimulation_Inr(2) [OF assms(1)]
  have ids0: "map truck_id (trucks s0) = map (\<lambda>i. int i + 1) [0 ..< nat nTrucks]"
    and len0: "length (trucks s0) = nat nTrucks"
    by (simp_all add: s0 newTrucks_def)
  have cfg: "numTrucks s0 = nTrucks" "numLoaders s0 = nLoaders" "numScales s0 = nScales"
    by (simp_all add: s0)
  show ?thesis
  proof (cases "nTrucks = 6 \<and> nLoaders = 2 \<and> nScales = 1")
    case True
    with cfg assms(2) obtain sa where a: "initLoaders [1, 2, 3, 4, 5] s0 = Inr sa" and b: "initScale 6 sa = Inr s1"
      by (auto elim: init_special)
    from initLoaders_idleShrinks [OF a] initScale_idleShrinks [OF b]
    have sh: "idleShrinks (set [1, 2, 3, 4, 5] \<union> {6}) s0 s1" by (rule idleShrinks_trans)
    have no: "tstate (trucks s1 ! i) \<noteq> IDLE" if "i < length (trucks s1)" for i
    proof
      assume idle: "tstate (trucks s1 ! i) = IDLE"
      from sh that len0 True have "i < 6" by (simp add: idleShrinks_def)
      then have "int i + 1 \<in> set [1, 2, 3, 4, 5] \<union> {6}" by auto
      with sh idle that show False by (auto simp: idleShrinks_def)
    qed
    with sh ids0 show ?thesis by (simp add: idleShrinks_def idlePending_def)
  next
    case False
    with cfg assms(2) have e: "s1 = initArrivals [1 .. nTrucks] s0"
      by (auto dest: init_general)
    have "\<lparr>time = 0, etype = ALQ, truckId = int i + 1\<rparr> \<in> set (FEL s1)" if "i < length (trucks s1)" for i
    proof -
      from that e len0 have "int i + 1 \<in> set [1 .. nTrucks]" by auto
      then show ?thesis unfolding e initArrivals_FEL by blast
    qed
    with False e ids0 show ?thesis by (auto simp: idlePending_def)
  qed
qed

text \<open>
  C2 (conservation), as the code has it. At every loop head of a run the array of trucks
  holds \<open>truck_count\<close> trucks with the identifiers \<open>1, ..., truck_count\<close> (none lost, none
  duplicated), and the trucks in the five phases \<open>IN_LQ\<close>, \<open>LOADING\<close>, \<open>IN_WQ\<close>, \<open>WEIGHING\<close>,
  \<open>TRAVELING\<close> together with the trucks still in phase \<open>IDLE\<close> are \<open>truck_count\<close>. A truck is
  \<open>IDLE\<close> only while its arrival of time 0, scheduled by the general start state, is pending;
  a processed event never puts a truck back to \<open>IDLE\<close>. So the five phases hold all the
  trucks as soon as no arrival of time 0 is pending, and at every loop head after the
  problem-specific start state.
\<close>

theorem truck_conservation:
  assumes "newSimulation nTrucks nLoaders nScales maxTime cps random = Inr s0"
    and "reachable s0 s lastEventTime"
  shows "length (trucks s) = nat nTrucks \<and>
         map truck_id (trucks s) = map (\<lambda>i. int i + 1) [0 ..< nat nTrucks] \<and>
         inPhases activePhases s + inPhases [IDLE] s = nat nTrucks \<and>
         idlePending s \<and>
         ((\<forall>e \<in> set (FEL s). etype e = ALQ \<longrightarrow> time e \<noteq> 0) \<longrightarrow> inPhases activePhases s = nat nTrucks) \<and>
         (nTrucks = 6 \<and> nLoaders = 2 \<and> nScales = 1 \<longrightarrow> inPhases activePhases s = 6) \<and>
         (\<forall>s' last'. loopStep s lastEventTime = Next s' last' \<longrightarrow>
            (\<forall>i < length (trucks s). tstate (trucks s ! i) \<noteq> IDLE \<longrightarrow> tstate (trucks s' ! i) \<noteq> IDLE))"
proof -
  let ?special = "nTrucks = 6 \<and> nLoaders = 2 \<and> nScales = 1"
  let ?ids = "map (\<lambda>i. int i + 1) [0 ..< nat nTrucks]"
  from assms(2) have inv: "map truck_id (trucks s) = ?ids \<and> idlePending s \<and>
      (?special \<longrightarrow> (\<forall>i < length (trucks s). tstate (trucks s ! i) \<noteq> IDLE))"
  proof (induction rule: reachable.induct)
    case (after_init s)
    with assms(1) show ?case by (rule init_trucks)
  next
    case (after_event s lastEventTime s' last')
    from loopStep_idleShrinks [OF after_event.hyps(2)] have sh: "idleShrinks {} s s'" .
    from loopStep_idlePending [OF after_event.hyps(2)] after_event.IH have "idlePending s'" by simp
    with sh after_event.IH show ?case by (auto simp: idleShrinks_def)
  qed
  then have "length (map truck_id (trucks s)) = length ?ids" by simp
  then have len: "length (trucks s) = nat nTrucks" by simp
  have none: "inPhases activePhases s = nat nTrucks"
    if "\<forall>i < length (trucks s). tstate (trucks s ! i) \<noteq> IDLE"
    using inPhases_no_idle [OF that] len by simp
  have "inPhases activePhases s = nat nTrucks" if "\<forall>e \<in> set (FEL s). etype e = ALQ \<longrightarrow> time e \<noteq> 0"
  proof (rule none, intro allI impI notI)
    fix i assume "i < length (trucks s)" "tstate (trucks s ! i) = IDLE"
    with inv have "\<lparr>time = 0, etype = ALQ, truckId = int i + 1\<rparr> \<in> set (FEL s)"
      by (simp add: idlePending_def)
    with that show False by fastforce
  qed
  moreover have "inPhases activePhases s = 6" if ?special
    using none inv that by simp
  moreover have "tstate (trucks s' ! i) \<noteq> IDLE"
    if "loopStep s lastEventTime = Next s' last'" "i < length (trucks s)" "tstate (trucks s ! i) \<noteq> IDLE"
    for s' last' i
    using loopStep_idleShrinks [OF that(1)] that(2,3) by (auto simp: idleShrinks_def)
  ultimately show ?thesis
    using inv len inPhases_total [of s] by auto
qed

theorem truck_conservation_witness:
  "(\<exists>s0 s1 s2 s3. newSimulation 2 1 1 100 CUM_PROBS (\<lambda>_. 1 / 2) = Inr s0 \<and> init s0 = Inr s1 \<and>
     loopStep s1 0 = Next s2 0 \<and> loopStep s2 0 = Next s3 0 \<and>
     map tstate (trucks s2) = [LOADING, IDLE] \<and>
     \<lparr>time = 0, etype = ALQ, truckId = 2\<rparr> \<in> set (FEL s2) \<and>
     map tstate (trucks s3) = [LOADING, IN_LQ] \<and> map truck_id (trucks s3) = [1, 2] \<and>
     inPhases activePhases s3 + inPhases [IDLE] s3 = 2 \<and> inPhases activePhases s3 = 2) \<and>
   (\<exists>s0 s1. newSimulation 6 2 1 100 CUM_PROBS (\<lambda>_. 1 / 2) = Inr s0 \<and> init s0 = Inr s1 \<and>
     inPhases activePhases s1 = 6)"
proof
  have "\<exists>s0 s1 s2 s3. newSimulation 2 1 1 100 CUM_PROBS (\<lambda>_. 1 / 2) = Inr s0 \<and> init s0 = Inr s1 \<and>
     loopStep s1 0 = Next s2 0 \<and> loopStep s2 0 = Next s3 0 \<and>
     map tstate (trucks s2) = [LOADING, IDLE] \<and>
     map tstate (trucks s3) = [LOADING, IN_LQ] \<and> (\<forall>e \<in> set (FEL s3). etype e = ALQ \<longrightarrow> time e \<noteq> 0)"
    by (simp add: engine_defs upto.simps upt_rec)
  then obtain s0 s1 s2 s3 where 0: "newSimulation 2 1 1 100 CUM_PROBS (\<lambda>_. 1 / 2) = Inr s0"
    and 1: "init s0 = Inr s1" and 2: "loopStep s1 0 = Next s2 0" and 3: "loopStep s2 0 = Next s3 0"
    and 4: "map tstate (trucks s2) = [LOADING, IDLE]" "map tstate (trucks s3) = [LOADING, IN_LQ]"
    and 5: "\<forall>e \<in> set (FEL s3). etype e = ALQ \<longrightarrow> time e \<noteq> 0"
    by (elim exE conjE) (rule that)
  from 1 have "reachable s0 s1 0" by (rule after_init)
  from this 2 have r2: "reachable s0 s2 0" by (rule after_event)
  from this 3 have r3: "reachable s0 s3 0" by (rule after_event)
  from 4(1) have "length (map tstate (trucks s2)) = 2" "map tstate (trucks s2) ! 1 = IDLE"
    by simp_all
  then have "length (trucks s2) = 2" "tstate (trucks s2 ! 1) = IDLE"
    by simp_all
  moreover from truck_conservation [OF 0 r2] have "idlePending s2" by simp
  then have "1 < length (trucks s2) \<longrightarrow> tstate (trucks s2 ! 1) = IDLE \<longrightarrow>
      \<lparr>time = 0, etype = ALQ, truckId = int 1 + 1\<rparr> \<in> set (FEL s2)"
    unfolding idlePending_def by blast
  ultimately have "\<lparr>time = 0, etype = ALQ, truckId = 2\<rparr> \<in> set (FEL s2)"
    by simp
  moreover from truck_conservation [OF 0 r3] 5
  have "map truck_id (trucks s3) = [1, 2]" "inPhases activePhases s3 + inPhases [IDLE] s3 = 2"
    "inPhases activePhases s3 = 2"
    by (simp_all add: upt_rec)
  ultimately show "\<exists>s0 s1 s2 s3. newSimulation 2 1 1 100 CUM_PROBS (\<lambda>_. 1 / 2) = Inr s0 \<and> init s0 = Inr s1 \<and>
     loopStep s1 0 = Next s2 0 \<and> loopStep s2 0 = Next s3 0 \<and>
     map tstate (trucks s2) = [LOADING, IDLE] \<and>
     \<lparr>time = 0, etype = ALQ, truckId = 2\<rparr> \<in> set (FEL s2) \<and>
     map tstate (trucks s3) = [LOADING, IN_LQ] \<and> map truck_id (trucks s3) = [1, 2] \<and>
     inPhases activePhases s3 + inPhases [IDLE] s3 = 2 \<and> inPhases activePhases s3 = 2"
    using 0 1 2 3 4 by (intro exI [of _ s0] exI [of _ s1] exI [of _ s2] exI [of _ s3]) simp
next
  obtain s0 where 0: "newSimulation 6 2 1 100 CUM_PROBS (\<lambda>_. 1 / 2) = Inr s0"
    by (simp add: newSimulation_def)
  have "tablesNonEmpty CUM_PROBS" by (simp add: tablesNonEmpty_def CUM_PROBS_def)
  with 0 obtain s1 where 1: "init s0 = Inr s1" using run_no_exception(1) by blast
  then have "reachable s0 s1 0" by (rule after_init)
  from truck_conservation [OF 0 this] have "inPhases activePhases s1 = 6" by simp
  with 0 1 show "\<exists>s0 s1. newSimulation 6 2 1 100 CUM_PROBS (\<lambda>_. 1 / 2) = Inr s0 \<and> init s0 = Inr s1 \<and>
     inPhases activePhases s1 = 6"
    by (intro exI [of _ s0] exI [of _ s1]) simp
qed

theorem truck_conservation_counterexample:
  "\<exists>s0 s1. newSimulation 1 1 1 100 CUM_PROBS (\<lambda>_. 1 / 2) = Inr s0 \<and> reachable s0 s1 0 \<and>
     numTrucks s1 = 1 \<and> map tstate (trucks s1) = [IDLE] \<and> inPhases activePhases s1 = 0"
proof -
  have "\<exists>s0 s1. newSimulation 1 1 1 100 CUM_PROBS (\<lambda>_. 1 / 2) = Inr s0 \<and> init s0 = Inr s1 \<and>
     numTrucks s1 = 1 \<and> map tstate (trucks s1) = [IDLE] \<and> inPhases activePhases s1 = 0"
    by (simp add: engine_defs upto.simps upt_rec inPhases_def activePhases_def)
  then obtain s0 s1 where "newSimulation 1 1 1 100 CUM_PROBS (\<lambda>_. 1 / 2) = Inr s0" "init s0 = Inr s1"
     "numTrucks s1 = 1" "map tstate (trucks s1) = [IDLE]" "inPhases activePhases s1 = 0"
    by (elim exE conjE) (rule that)
  moreover from this(2) have "reachable s0 s1 0" by (rule after_init)
  ultimately show ?thesis
    by (intro exI [of _ s0] exI [of _ s1]) simp
qed

section \<open>Final statistics and the horizon 0\<close>

lemma zeroPhase_add:
  assumes "zeroPhase s" "0 < t"
  shows "zeroPhase (s\<lparr>FEL := sort_key time (FEL s @ [\<lparr>time = clock s + t, etype = k, truckId = tid\<rparr>])\<rparr>)"
  using assms by (auto simp: zeroPhase_def list_all_iff)

lemma zeroPhaseI:
  "zeroPhase (s\<lparr>FEL := fel\<rparr>) \<Longrightarrow> FEL s' = fel \<Longrightarrow> clock s' = clock s \<Longrightarrow> maxSimTime s' = maxSimTime s
     \<Longrightarrow> cumProbs s' = cumProbs s \<Longrightarrow> zeroPhase s'"
  by (simp add: zeroPhase_def)

lemma length_filter_sort_key: "length (filter P (sort_key f xs)) = length (filter P xs)"
  by (simp add: filter_sort)

lemma handleALQ_zeroPhase:
  assumes "handleALQ ev s = Inr s'" "zeroPhase s"
  shows "zeroPhase s' \<and>
         length (filter (\<lambda>e. time e = 0) (FEL s')) = length (filter (\<lambda>e. time e = 0) (FEL s))"
  using assms(1)
proof (cases rule: handleALQ_cases)
  case (load t)
  from assms(2) have "tableTimes ((<) 0) (cumProbs s)" by (simp add: zeroPhase_def)
  from this load(4) have t: "0 < t" by (rule sample_tableTimes) simp
  with assms(2) have "zeroPhase (s\<lparr>FEL := sort_key time (FEL s @ [\<lparr>time = clock s + t, etype = EL, truckId = truckId ev\<rparr>])\<rparr>)"
    by (rule zeroPhase_add)
  then have "zeroPhase s'" by (rule zeroPhaseI) (simp_all add: load(5))
  moreover from assms(2) t have "clock s + t \<noteq> 0" by (simp add: zeroPhase_def)
  then have "length (filter (\<lambda>e. time e = 0) (FEL s')) = length (filter (\<lambda>e. time e = 0) (FEL s))"
    by (simp add: load(5) length_filter_sort_key)
  ultimately show ?thesis ..
next
  case queue
  with assms(2) show ?thesis by (simp add: zeroPhase_def)
qed

lemma zeroPhase_returns:
  assumes "zeroPhase s" "wellFormed s" "length (filter (\<lambda>e. time e = 0) (FEL s)) = k"
  shows "\<exists>n s'. runLoop n s 0 = Some (Inr (s', 0)) \<and> clock s' = 0 \<and> sameConfig s s'"
  using assms
proof (induction k arbitrary: s)
  case 0
  show ?case
  proof (cases "FEL s")
    case Nil
    then have "runLoop (Suc 0) s 0 = Some (Inr (s, 0))" by (simp add: loopStep_def)
    with "0.prems"(1) show ?thesis unfolding zeroPhase_def sameConfig_def by blast
  next
    case (Cons ev rest)
    with "0.prems"(3) have "time ev \<noteq> 0" by (auto split: if_splits)
    with "0.prems"(1) Cons have "time ev > maxSimTime s" by (simp add: zeroPhase_def)
    with Cons have "runLoop (Suc 0) s 0 = Some (Inr (s\<lparr>FEL := rest, clock := maxSimTime s\<rparr>, 0))"
      by (simp add: loopStep_def)
    moreover have "clock (s\<lparr>FEL := rest, clock := maxSimTime s\<rparr>) = 0"
      "sameConfig s (s\<lparr>FEL := rest, clock := maxSimTime s\<rparr>)"
      using "0.prems"(1) by (simp_all add: zeroPhase_def sameConfig_def)
    ultimately show ?thesis by blast
  qed
next
  case (Suc k)
  from Suc.prems(3) obtain ev rest where fel: "FEL s = ev # rest"
    by (cases "FEL s") auto
  show ?case
  proof (cases "time ev = 0")
    case False
    with Suc.prems(1) fel have "time ev > maxSimTime s" by (simp add: zeroPhase_def)
    with fel have "runLoop (Suc 0) s 0 = Some (Inr (s\<lparr>FEL := rest, clock := maxSimTime s\<rparr>, 0))"
      by (simp add: loopStep_def)
    moreover have "clock (s\<lparr>FEL := rest, clock := maxSimTime s\<rparr>) = 0"
      "sameConfig s (s\<lparr>FEL := rest, clock := maxSimTime s\<rparr>)"
      using Suc.prems(1) by (simp_all add: zeroPhase_def sameConfig_def)
    ultimately show ?thesis by blast
  next
    case True
    with Suc.prems(1) fel have alq: "etype ev = ALQ" and le: "\<not> time ev > maxSimTime s"
      by (simp_all add: zeroPhase_def)
    let ?mid = "(accumulate (time ev - 0) (s\<lparr>FEL := rest\<rparr>))\<lparr>clock := time ev\<rparr>"
    from Suc.prems(2) fel have wf: "wellFormed ?mid \<and> validId ?mid (truckId ev)"
      by (rule pop_wellFormed)
    then obtain s1 where d: "dispatch ev ?mid = Inr s1"
      using dispatch_ok by blast
    with fel le True have step: "loopStep s 0 = Next s1 0" by (simp add: loopStep_def)
    from Suc.prems(1) fel True have z: "zeroPhase ?mid"
      by (simp add: zeroPhase_def accumulate_def)
    from Suc.prems(3) fel True have c: "length (filter (\<lambda>e. time e = 0) (FEL ?mid)) = k"
      by (simp add: accumulate_def)
    from d alq have "handleALQ ev ?mid = Inr s1" by (simp add: dispatch_def)
    from handleALQ_zeroPhase [OF this z] c
    have "zeroPhase s1" "length (filter (\<lambda>e. time e = 0) (FEL s1)) = k" by simp_all
    moreover from wf d have "wellFormed s1" by (blast intro: dispatch_wellFormed)
    ultimately obtain n s' where n: "runLoop n s1 0 = Some (Inr (s', 0))" "clock s' = 0" "sameConfig s1 s'"
      using Suc.IH by blast
    from dispatch_frame [OF d] have "sameConfig s s1"
      by (simp add: frame_def sameConfig_def accumulate_def)
    from this n(3) have "sameConfig s s'" by (rule sameConfig_trans)
    moreover from step n(1) have "runLoop (Suc n) s 0 = Some (Inr (s', 0))" by simp
    ultimately show ?thesis using n(2) by blast
  qed
qed

lemma init_zeroPhase:
  assumes "init s = Inr s'" "FEL s = []" "clock s = 0" "maxSimTime s = 0" "tableTimes ((<) 0) (cumProbs s)"
  shows "zeroPhase s'"
  using assms(1)
proof (rule init_induct)
  show "zeroPhase s" using assms(2-) by (simp add: zeroPhase_def)
  show "zeroPhase s2" if "initLoader tid s1 = Inr s2" "zeroPhase s1" for tid s1 s2
    using that(1)
  proof (cases rule: initLoader_cases)
    case (load t)
    from that(2) have "tableTimes ((<) 0) (cumProbs s1)" by (simp add: zeroPhase_def)
    from this load(4) have "0 < t" by (rule sample_tableTimes) simp
    with that(2) have "zeroPhase (s1\<lparr>FEL := sort_key time (FEL s1 @ [\<lparr>time = clock s1 + t, etype = EL, truckId = tid\<rparr>])\<rparr>)"
      by (rule zeroPhase_add)
    then show ?thesis by (rule zeroPhaseI) (simp_all add: load(5))
  next
    case queue
    with that(2) show ?thesis by (simp add: zeroPhase_def)
  qed
  show "zeroPhase s2" if "initScale tid s1 = Inr s2" "zeroPhase s1" for tid s1 s2
    using that(1)
  proof (cases rule: initScale_cases)
    case (weigh t)
    from that(2) have "tableTimes ((<) 0) (cumProbs s1)" by (simp add: zeroPhase_def)
    from this weigh(4) have "0 < t" by (rule sample_tableTimes) simp
    with that(2) have "zeroPhase (s1\<lparr>FEL := sort_key time (FEL s1 @ [\<lparr>time = clock s1 + t, etype = EW, truckId = tid\<rparr>])\<rparr>)"
      by (rule zeroPhase_add)
    then show ?thesis by (rule zeroPhaseI) (simp_all add: weigh(5))
  next
    case queue
    with that(2) show ?thesis by (simp add: zeroPhase_def)
  qed
  show "zeroPhase (addEvent ev s1)" if "time ev = 0" "etype ev = ALQ" "zeroPhase s1" for ev s1
    using that by (auto simp: zeroPhase_def addEvent_def list_all_iff)
qed

lemma getFinalStats_clock0:
  "clock s = 0 \<Longrightarrow> getFinalStats s = \<lparr>totalTime = 0, loaderUtilization = 0, scaleUtilization = 0\<rparr>"
  by (simp add: getFinalStats_def)

text \<open>
  C8 (final statistics and the zero horizon), as the code has it. \<open>getFinalStats\<close> returns the
  clock as total time and, for each resource, the busy-time integral divided by capacity
  times clock, times 100, or 0 when that product is not positive; in particular all three
  results are 0 when the clock is 0. A run with horizon 0 whose tables are non-empty and hold
  only positive times returns, and returns total time 0 and both utilizations 0.
\<close>

theorem zero_horizon:
  assumes "newSimulation nTrucks nLoaders nScales 0 cps random = Inr s0"
    and "tablesNonEmpty cps" and "tableTimes ((<) 0) cps"
  shows "(\<exists>fuel s'. run fuel s0 = Some (Inr (\<lparr>totalTime = 0, loaderUtilization = 0, scaleUtilization = 0\<rparr>, s'))
            \<and> clock s' = 0) \<and>
         (\<forall>s. totalTime (getFinalStats s) = clock s \<and>
            loaderUtilization (getFinalStats s) =
              (if real_of_int (numLoaders s) * clock s > 0
               then loaderBusyTime s / (real_of_int (numLoaders s) * clock s) * 100 else 0) \<and>
            scaleUtilization (getFinalStats s) =
              (if real_of_int (numScales s) * clock s > 0
               then scaleBusyTime s / (real_of_int (numScales s) * clock s) * 100 else 0))"
proof
  note s0 = newSimulation_Inr(2) [OF assms(1)]
  from assms(1,2) have wf0: "wellFormed s0" by (rule newSimulation_wellFormed)
  then obtain s1 where i: "init s0 = Inr s1" using init_ok by blast
  then have "reachable s0 s1 0" by (rule after_init)
  from this wf0 have wf1: "wellFormed s1" by (rule reachable_wellFormed)
  from s0 assms(3) have "FEL s0 = []" "clock s0 = 0" "maxSimTime s0 = 0" "tableTimes ((<) 0) (cumProbs s0)"
    by simp_all
  with i have "zeroPhase s1" by (rule init_zeroPhase)
  from zeroPhase_returns [OF this wf1 refl]
  obtain n s' where n: "runLoop n s1 0 = Some (Inr (s', 0))" and c: "clock s' = 0"
    by blast
  from c have "finalUpdate s' 0 = s'" by (simp add: finalUpdate_def)
  with i n c have "run n s0 = Some (Inr (\<lparr>totalTime = 0, loaderUtilization = 0, scaleUtilization = 0\<rparr>, s'))"
    by (simp add: run_def runWith_def getFinalStats_clock0)
  with c show "\<exists>fuel s'. run fuel s0 = Some (Inr (\<lparr>totalTime = 0, loaderUtilization = 0, scaleUtilization = 0\<rparr>, s'))
            \<and> clock s' = 0"
    by blast
next
  show "\<forall>s. totalTime (getFinalStats s) = clock s \<and>
            loaderUtilization (getFinalStats s) =
              (if real_of_int (numLoaders s) * clock s > 0
               then loaderBusyTime s / (real_of_int (numLoaders s) * clock s) * 100 else 0) \<and>
            scaleUtilization (getFinalStats s) =
              (if real_of_int (numScales s) * clock s > 0
               then scaleBusyTime s / (real_of_int (numScales s) * clock s) * 100 else 0)"
    by (simp add: getFinalStats_def Let_def)
qed

theorem zero_horizon_witness:
  "\<exists>s0 fuel s'. newSimulation 6 2 1 0 CUM_PROBS (\<lambda>_. 1 / 2) = Inr s0 \<and>
     run fuel s0 = Some (Inr (\<lparr>totalTime = 0, loaderUtilization = 0, scaleUtilization = 0\<rparr>, s')) \<and>
     clock s' = 0"
proof -
  obtain s0 where 0: "newSimulation 6 2 1 0 CUM_PROBS (\<lambda>_. 1 / 2) = Inr s0"
    by (simp add: newSimulation_def)
  have "tablesNonEmpty CUM_PROBS" "tableTimes ((<) 0) CUM_PROBS"
    by (simp_all add: tablesNonEmpty_def tableTimes_def CUM_PROBS_def)
  from zero_horizon [OF 0 this] 0 show ?thesis by blast
qed

lemma sampleTable_zero: "sampleTable r [\<lparr>c_time = 0, cum_prob = 1\<rparr>] = Inr 0"
  by (simp add: sampleTable_def)

lemma zeroCycle_step:
  assumes "zeroCycle s"
  shows "\<exists>s'. loopStep s lastEventTime = Next s' 0 \<and> zeroCycle s'"
proof -
  from assms have c: "maxSimTime s = 0" "cumProbs s = zeroTables" "numLoaders s = 1" "numScales s = 1"
    "length (trucks s) = 1" "LQ s = 0" "WQ s = 0"
    by (simp_all add: zeroCycle_def)
  from assms consider
      (alq) "FEL s = [\<lparr>time = 0, etype = ALQ, truckId = 1\<rparr>]" "L s = 0" "W s = 0"
    | (el) "FEL s = [\<lparr>time = 0, etype = EL, truckId = 1\<rparr>]" "L s = 1" "W s = 0"
    | (ew) "FEL s = [\<lparr>time = 0, etype = EW, truckId = 1\<rparr>]" "L s = 0" "W s = 1"
    unfolding zeroCycle_def by blast
  then show ?thesis
  proof cases
    case alq
    with c show ?thesis
      by (simp add: zeroCycle_def loopStep_def accumulate_def dispatch_def handleALQ_def
          startLoading_def setTruckState_def getRandomTime_def addEvent_def zeroTables_def
          sampleTable_zero)
  next
    case el
    with c show ?thesis
      by (simp add: zeroCycle_def loopStep_def accumulate_def dispatch_def handleEL_def
          startWeighing_def serveLoaderQueue_def setTruckState_def getRandomTime_def addEvent_def
          zeroTables_def sampleTable_zero)
  next
    case ew
    with c show ?thesis
      by (simp add: zeroCycle_def loopStep_def accumulate_def dispatch_def handleEW_def
          serveWeigherQueue_def setTruckState_def getRandomTime_def addEvent_def
          zeroTables_def sampleTable_zero)
  qed
qed

lemma zeroCycle_runs_forever: "zeroCycle s \<Longrightarrow> runLoop n s lastEventTime = None"
proof (induction n arbitrary: s lastEventTime)
  case 0
  show ?case by simp
next
  case (Suc n)
  from zeroCycle_step [OF Suc.prems] obtain s' where "loopStep s lastEventTime = Next s' 0" "zeroCycle s'"
    by blast
  with Suc.IH show ?case by simp
qed

theorem zero_horizon_counterexample:
  "\<exists>s0. createCumulativeTable [\<lparr>d_time = 0, prob = 1\<rparr>] ''Loading Time'' = Inr (loading zeroTables) \<and>
     createCumulativeTable [\<lparr>d_time = 0, prob = 1\<rparr>] ''Weighing Time'' = Inr (weighing zeroTables) \<and>
     createCumulativeTable [\<lparr>d_time = 0, prob = 1\<rparr>] ''Travel Time'' = Inr (travel zeroTables) \<and>
     newSimulation 1 1 1 0 zeroTables (\<lambda>_. 1 / 2) = Inr s0 \<and> (\<forall>fuel. run fuel s0 = None)"
proof -
  have t: "createCumulativeTable [\<lparr>d_time = 0, prob = 1\<rparr>] name = Inr [\<lparr>c_time = 0, cum_prob = 1\<rparr>]" for name
    by (rule createCumulativeTable_single)
  have "\<exists>s0 s1. newSimulation 1 1 1 0 zeroTables (\<lambda>_. 1 / 2) = Inr s0 \<and> init s0 = Inr s1 \<and> zeroCycle s1"
    by (simp add: newSimulation_def newTrucks_def init_def addEvent_def zeroCycle_def upto.simps)
  then obtain s0 s1 where 0: "newSimulation 1 1 1 0 zeroTables (\<lambda>_. 1 / 2) = Inr s0"
    and 1: "init s0 = Inr s1" and 2: "zeroCycle s1"
    by (elim exE conjE) (rule that)
  have "run fuel s0 = None" for fuel
    using 1 zeroCycle_runs_forever [OF 2, of fuel 0] by (simp add: run_def runWith_def)
  with 0 t show ?thesis by (simp add: zeroTables_def)
qed

section \<open>The updates of the two integrals\<close>

text \<open>A processed event adds to the two integrals the busy counts of the state before the
  event, times the time elapsed since the previous update.\<close>

lemma loopStep_accumulates:
  assumes "loopStep s lastEventTime = Next s' last'"
  shows "\<exists>ev rest. FEL s = ev # rest \<and> last' = time ev \<and> clock s' = time ev \<and>
           loaderBusyTime s' = loaderBusyTime s + real_of_int (L s) * (time ev - lastEventTime) \<and>
           scaleBusyTime s' = scaleBusyTime s + real_of_int (W s) * (time ev - lastEventTime)"
proof -
  from assms obtain ev rest where fel: "FEL s = ev # rest" and last': "last' = time ev"
    and d: "dispatch ev ((accumulate (time ev - lastEventTime) (s\<lparr>FEL := rest\<rparr>))\<lparr>clock := time ev\<rparr>) = Inr s'"
    by (rule loopStep_Next)
  from dispatch_frame [OF d] have "clock s' = time ev"
    "loaderBusyTime s' = loaderBusyTime s + real_of_int (L s) * (time ev - lastEventTime)"
    "scaleBusyTime s' = scaleBusyTime s + real_of_int (W s) * (time ev - lastEventTime)"
    by (simp_all add: frame_def accumulate_def)
  with fel last' show ?thesis by blast
qed

lemma runWith_Inr:
  assumes "runWith final fuel s0 = Some (Inr (st, s'))"
  obtains s1 s2 lastEventTime where "init s0 = Inr s1"
    "runLoop fuel s1 0 = Some (Inr (s2, lastEventTime))"
    "s' = final s2 lastEventTime" "st = getFinalStats s'"
  using assms
  by (auto simp: runWith_def split: sum.splits option.splits prod.splits)

text \<open>After the loop \<^verbatim>\<open>simulation.js\<close> updates the integrals once more, with the counts at the
  exit of the loop, and only when the remaining interval is positive.\<close>

lemma run_final_update:
  assumes "run fuel s0 = Some (Inr (st, s'))"
  shows "\<exists>s1 s2 lastEventTime. init s0 = Inr s1 \<and> runLoop fuel s1 0 = Some (Inr (s2, lastEventTime)) \<and>
           st = getFinalStats s' \<and>
           (if clock s2 - lastEventTime > 0
            then s' = s2\<lparr>loaderBusyTime := loaderBusyTime s2 + real_of_int (L s2) * (clock s2 - lastEventTime),
                         scaleBusyTime := scaleBusyTime s2 + real_of_int (W s2) * (clock s2 - lastEventTime)\<rparr>
            else s' = s2)"
proof -
  from assms obtain s1 s2 lastEventTime where 1: "init s0 = Inr s1"
    "runLoop fuel s1 0 = Some (Inr (s2, lastEventTime))" "st = getFinalStats s'"
    and 2: "s' = finalUpdate s2 lastEventTime"
    unfolding run_def by (rule runWith_Inr)
  from 2 have "if clock s2 - lastEventTime > 0
            then s' = s2\<lparr>loaderBusyTime := loaderBusyTime s2 + real_of_int (L s2) * (clock s2 - lastEventTime),
                         scaleBusyTime := scaleBusyTime s2 + real_of_int (W s2) * (clock s2 - lastEventTime)\<rparr>
            else s' = s2"
    by (simp add: finalUpdate_def accumulate_def)
  with 1 show ?thesis by blast
qed

text \<open>\<^verbatim>\<open>part_000\<close> performs the same update without the guard.\<close>

lemma run_part000_final_update:
  assumes "run_part000 fuel s0 = Some (Inr (st, s'))"
  shows "\<exists>s1 s2 lastEventTime. init s0 = Inr s1 \<and> runLoop fuel s1 0 = Some (Inr (s2, lastEventTime)) \<and>
           st = getFinalStats s' \<and>
           s' = s2\<lparr>loaderBusyTime := loaderBusyTime s2 + real_of_int (L s2) * (clock s2 - lastEventTime),
                    scaleBusyTime := scaleBusyTime s2 + real_of_int (W s2) * (clock s2 - lastEventTime)\<rparr>"
proof -
  from assms obtain s1 s2 lastEventTime where 1: "init s0 = Inr s1"
    "runLoop fuel s1 0 = Some (Inr (s2, lastEventTime))" "st = getFinalStats s'"
    and 2: "s' = finalUpdate_part000 s2 lastEventTime"
    unfolding run_part000_def by (rule runWith_Inr)
  from 2 have "s' = s2\<lparr>loaderBusyTime := loaderBusyTime s2 + real_of_int (L s2) * (clock s2 - lastEventTime),
                    scaleBusyTime := scaleBusyTime s2 + real_of_int (W s2) * (clock s2 - lastEventTime)\<rparr>"
    by (simp add: finalUpdate_part000_def accumulate_def)
  with 1 show ?thesis by blast
qed

text \<open>With a horizon that is not negative the interval after the loop is never negative, and
  the two versions of \<open>run\<close> return the same.\<close>

lemma accumulate_zero [simp]: "accumulate 0 s = s"
  by (simp add: accumulate_def)

lemma runLoop_exit_interval:
  assumes "runLoop n s lastEventTime = Some (Inr (s', last'))"
    and "clock s = lastEventTime" and "lastEventTime \<le> maxSimTime s"
  shows "last' \<le> clock s'"
  using assms
proof (induction n arbitrary: s lastEventTime)
  case 0
  then show ?case by simp
next
  case (Suc n)
  show ?case
  proof (cases "loopStep s lastEventTime")
    case (Next s1 last1)
    then obtain ev rest where "\<not> time ev > maxSimTime s" "last1 = time ev"
      and d: "dispatch ev ((accumulate (time ev - lastEventTime) (s\<lparr>FEL := rest\<rparr>))\<lparr>clock := time ev\<rparr>) = Inr s1"
      by (rule loopStep_Next)
    moreover from dispatch_frame [OF d] have "clock s1 = time ev" "maxSimTime s1 = maxSimTime s"
      by (simp_all add: frame_def sameConfig_def accumulate_def)
    ultimately have "clock s1 = last1" "last1 \<le> maxSimTime s1" by simp_all
    moreover from Suc.prems(1) Next have "runLoop n s1 last1 = Some (Inr (s', last'))" by simp
    ultimately show ?thesis using Suc.IH by blast
  next
    case (Exit s1 last1)
    with Suc.prems show ?thesis
      by (auto simp: loopStep_def split: list.splits if_splits sum.splits)
  next
    case (Fail e)
    with Suc.prems(1) show ?thesis by simp
  qed
qed

lemma init_clock:
  assumes "init s = Inr s'"
  shows "clock s' = clock s \<and> maxSimTime s' = maxSimTime s"
  using assms
proof (rule init_induct)
  show "clock s = clock s \<and> maxSimTime s = maxSimTime s" by simp
  show "clock s2 = clock s \<and> maxSimTime s2 = maxSimTime s"
    if "initLoader tid s1 = Inr s2" "clock s1 = clock s \<and> maxSimTime s1 = maxSimTime s" for tid s1 s2
    using that by (cases rule: initLoader_cases) simp_all
  show "clock s2 = clock s \<and> maxSimTime s2 = maxSimTime s"
    if "initScale tid s1 = Inr s2" "clock s1 = clock s \<and> maxSimTime s1 = maxSimTime s" for tid s1 s2
    using that by (cases rule: initScale_cases) simp_all
  show "clock (addEvent ev s1) = clock s \<and> maxSimTime (addEvent ev s1) = maxSimTime s"
    if "clock s1 = clock s \<and> maxSimTime s1 = maxSimTime s" for ev s1
    using that by (simp add: addEvent_def)
qed

lemma run_part000_eq_run:
  assumes "clock s0 = 0" "0 \<le> maxSimTime s0"
  shows "run_part000 fuel s0 = run fuel s0"
proof (cases "init s0")
  case (Inl e)
  then show ?thesis by (simp add: run_part000_def run_def runWith_def)
next
  case (Inr s1)
  with assms init_clock [OF Inr] have c: "clock s1 = 0" "0 \<le> maxSimTime s1" by simp_all
  have "finalUpdate_part000 s2 last2 = finalUpdate s2 last2"
    if "runLoop fuel s1 0 = Some (Inr (s2, last2))" for s2 last2
  proof -
    from that c have "last2 \<le> clock s2" by (rule runLoop_exit_interval)
    then show ?thesis
      by (cases "last2 = clock s2") (simp_all add: finalUpdate_part000_def finalUpdate_def)
  qed
  with Inr show ?thesis
    by (auto simp: run_part000_def run_def runWith_def split: option.splits sum.splits)
qed

text \<open>
  C3 (accumulator updates). Every processed event adds to the two integrals the busy counts
  in effect before the event, times the time elapsed since the last update, and after the
  loop one more update covers the interval from the last update to the final clock, with the
  counts at the exit of the loop; this last update is to be skipped when the interval is zero
  or negative. \<^verbatim>\<open>simulation.js\<close> does all of this (\<open>loopStep_accumulates\<close>, \<open>run_final_update\<close>), and
  \<^verbatim>\<open>part_000\<close> returns the same whenever the horizon is not negative (\<open>run_part000_eq_run\<close>).
  But \<^verbatim>\<open>part_000\<close> does not skip the last update when the interval is negative: with 6 trucks,
  2 loaders, 1 scale and the horizon \<open>-10\<close> the first event lies beyond the horizon, the clock is
  set to \<open>-10\<close>, and the unguarded update adds \<open>2 * (-10)\<close> and \<open>1 * (-10)\<close> to the integrals,
  where \<^verbatim>\<open>simulation.js\<close> leaves them at 0.
\<close>

theorem final_update_part000_unguarded:
  "(\<exists>st s'. runSimulation_part000 1 6 2 1 (- 10) (\<lambda>_. 1 / 2) = Some (Inr (st, s')) \<and>
      clock s' = - 10 \<and> L s' = 2 \<and> W s' = 1 \<and> loaderBusyTime s' = - 20 \<and> scaleBusyTime s' = - 10) \<and>
   (\<exists>s0 st s'. newSimulation 6 2 1 (- 10) CUM_PROBS (\<lambda>_. 1 / 2) = Inr s0 \<and>
      run 1 s0 = Some (Inr (st, s')) \<and>
      clock s' = - 10 \<and> L s' = 2 \<and> W s' = 1 \<and> loaderBusyTime s' = 0 \<and> scaleBusyTime s' = 0)"
  by (simp add: runSimulation_part000_def run_part000_def run_def runWith_def finalUpdate_part000_def
      finalUpdate_def getFinalStats_def engine_defs upt_rec)

section \<open>The hand-off within one round of the loop\<close>

text \<open>
  C5 (immediate hand-off). In a run with non-empty tables, when the loop processes an \<open>EL\<close>
  event at a loop head whose loader queue counter is positive, that same round of the loop
  dequeues the head \<open>q\<close> of the loader queue, decrements \<open>LQ\<close>, sets the phase of \<open>q\<close> to \<open>LOADING\<close>
  and schedules the \<open>EL\<close> event of \<open>q\<close> at the clock (the time of the processed event) plus a
  loading time sampled from a draw that was not consumed before; \<open>L\<close> is the same before and
  after the round. The only events the round adds are this \<open>EL\<close> event and, when the scale was
  free, the \<open>EW\<close> event of the truck that finished loading: there is no event for a loader
  becoming free.
\<close>

theorem immediate_handoff:
  assumes "newSimulation nTrucks nLoaders nScales maxTime cps random = Inr s0"
    and "tablesNonEmpty cps"
    and "reachable s0 s lastEventTime"
    and "FEL s = ev # rest" and "time ev \<le> maxSimTime s" and "etype ev = EL"
    and "LQ s > 0"
  shows "\<exists>s' q qs k tl. loopStep s lastEventTime = Next s' (time ev) \<and>
           loaderQueue s = q # qs \<and> loaderQueue s' = qs \<and> LQ s' = LQ s - 1 \<and> L s' = L s \<and>
           tstate (trucks s' ! nat (q - 1)) = LOADING \<and>
           draws s \<le> k \<and> draws s' = Suc k \<and>
           sampleTable (random k) (loading cps) = Inr tl \<and>
           clock s' = time ev \<and>
           \<lparr>time = time ev + tl, etype = EL, truckId = q\<rparr> \<in> set (FEL s') \<and>
           (\<forall>e \<in> set (FEL s'). e \<in> set rest \<or> e = \<lparr>time = time ev + tl, etype = EL, truckId = q\<rparr>
               \<or> (W s < numScales s \<and> etype e = EW \<and> truckId e = truckId ev))"
proof -
  let ?mid = "(accumulate (time ev - lastEventTime) (s\<lparr>FEL := rest\<rparr>))\<lparr>clock := time ev\<rparr>"
  from assms(1,2) have "wellFormed s0" by (rule newSimulation_wellFormed)
  with assms(3) have wf: "wellFormed s" by (rule reachable_wellFormed)
  from wf assms(4) have mid: "wellFormed ?mid \<and> validId ?mid (truckId ev)" by (rule pop_wellFormed)
  from wf assms(7) obtain q qs where q: "loaderQueue s = q # qs"
    by (cases "loaderQueue s") (simp_all add: wellFormed_def)
  with mid have "LQ ?mid > 0" "loaderQueue ?mid = q # qs" "validId ?mid (truckId ev)" "validId ?mid q"
    "weighing (cumProbs ?mid) \<noteq> []" "loading (cumProbs ?mid) \<noteq> []"
    using assms(7) by (simp_all add: wellFormed_def tablesNonEmpty_def accumulate_def)
  from handleEL_handoff_local [OF this] obtain s' k tl where h: "handleEL ev ?mid = Inr s'"
    "loaderQueue s' = qs" "LQ s' = LQ ?mid - 1" "L s' = L ?mid"
    "tstate (trucks s' ! nat (q - 1)) = LOADING" "draws ?mid \<le> k" "draws s' = Suc k"
    "sampleTable (rng ?mid k) (loading (cumProbs ?mid)) = Inr tl"
    "\<lparr>time = clock ?mid + tl, etype = EL, truckId = q\<rparr> \<in> set (FEL s')"
    "\<forall>e \<in> set (FEL s'). e \<in> set (FEL ?mid) \<or> e = \<lparr>time = clock ?mid + tl, etype = EL, truckId = q\<rparr>
               \<or> (W ?mid < numScales ?mid \<and> etype e = EW \<and> truckId e = truckId ev)"
    by blast
  from h(1) assms(6) have d: "dispatch ev ?mid = Inr s'" by (simp add: dispatch_def)
  with assms(4,5) have step: "loopStep s lastEventTime = Next s' (time ev)"
    by (simp add: loopStep_def)
  from dispatch_frame [OF d] have c: "clock s' = time ev"
    by (simp add: frame_def accumulate_def)
  from newSimulation_config(5,6) [OF assms(1,3)] have cfg: "cumProbs s = cps" "rng s = random" .
  from h(2-) cfg have
    "loaderQueue s' = qs" "LQ s' = LQ s - 1" "L s' = L s"
    "tstate (trucks s' ! nat (q - 1)) = LOADING" "draws s \<le> k" "draws s' = Suc k"
    "sampleTable (random k) (loading cps) = Inr tl"
    "\<lparr>time = time ev + tl, etype = EL, truckId = q\<rparr> \<in> set (FEL s')"
    "\<forall>e \<in> set (FEL s'). e \<in> set rest \<or> e = \<lparr>time = time ev + tl, etype = EL, truckId = q\<rparr>
               \<or> (W s < numScales s \<and> etype e = EW \<and> truckId e = truckId ev)"
    by (simp_all add: accumulate_def)
  with step q c show ?thesis by blast
qed

theorem immediate_handoff_witness:
  "\<exists>s0 s1 s'. newSimulation 6 2 1 100 CUM_PROBS (\<lambda>_. 1 / 2) = Inr s0 \<and> init s0 = Inr s1 \<and>
     LQ s1 = 3 \<and> L s1 = 2 \<and> loaderQueue s1 = [3, 4, 5] \<and>
     loopStep s1 0 = Next s' 10 \<and>
     loaderQueue s' = [4, 5] \<and> LQ s' = 2 \<and> L s' = 2 \<and> tstate (trucks s' ! 2) = LOADING \<and>
     \<lparr>time = 20, etype = EL, truckId = 3\<rparr> \<in> set (FEL s')"
proof -
  have "\<exists>s0 s1 rest. newSimulation 6 2 1 100 CUM_PROBS (\<lambda>_. 1 / 2) = Inr s0 \<and> init s0 = Inr s1 \<and>
     LQ s1 = 3 \<and> L s1 = 2 \<and> loaderQueue s1 = [3, 4, 5] \<and> maxSimTime s1 = 100 \<and>
     FEL s1 = \<lparr>time = 10, etype = EL, truckId = 1\<rparr> # rest \<and> draws s1 = 3"
    by (simp add: engine_defs upt_rec)
  then obtain s0 s1 rest where 0: "newSimulation 6 2 1 100 CUM_PROBS (\<lambda>_. 1 / 2) = Inr s0"
    and 1: "init s0 = Inr s1" and 2: "LQ s1 = 3" "L s1 = 2" "loaderQueue s1 = [3, 4, 5]"
    and 3: "maxSimTime s1 = 100" "FEL s1 = \<lparr>time = 10, etype = EL, truckId = 1\<rparr> # rest"
    and 4: "draws s1 = 3"
    by (elim exE conjE) (rule that)
  have ne: "tablesNonEmpty CUM_PROBS" by (simp add: tablesNonEmpty_def CUM_PROBS_def)
  from 1 have r: "reachable s0 s1 0" by (rule after_init)
  from 2 3 have "time \<lparr>time = 10, etype = EL, truckId = 1\<rparr> \<le> maxSimTime s1"
    "etype \<lparr>time = 10, etype = EL, truckId = 1\<rparr> = EL" "LQ s1 > 0"
    by simp_all
  from immediate_handoff [OF 0 ne r 3(2) this]
  obtain s' q qs tl where h: "loopStep s1 0 = Next s' 10" "loaderQueue s1 = q # qs"
    "loaderQueue s' = qs" "LQ s' = LQ s1 - 1" "L s' = L s1" "tstate (trucks s' ! nat (q - 1)) = LOADING"
    "sampleTable (1 / 2) (loading CUM_PROBS) = Inr tl"
    "\<lparr>time = 10 + tl, etype = EL, truckId = q\<rparr> \<in> set (FEL s')"
    by auto
  from h(7) have "tl = 10" by (simp add: sampleTable_def CUM_PROBS_def)
  with h 2 have "loaderQueue s' = [4, 5]" "LQ s' = 2" "L s' = 2" "tstate (trucks s' ! 2) = LOADING"
    "\<lparr>time = 20, etype = EL, truckId = 3\<rparr> \<in> set (FEL s')"
    by simp_all
  with 0 1 2 h(1) show ?thesis
    by (intro exI [of _ s0] exI [of _ s1] exI [of _ s']) simp
qed

end
